theory Spec2Isabelle
  imports Complex_Main "HOL-Library.Sublist" "HOL-Library.Char_ord" "HOL-Library.List_Lexorder"
    "HOL-Library.Multiset"
begin

section \<open>Data model (session\_manager.py, intelligence\_extractor.py)\<close>

text \<open>
  Python strings are modelled as HOL strings, one \<^typ>\<open>char\<close> per code point, so the
  model covers texts over the code points 0..255. Timestamps produced by
  \<^verbatim>\<open>datetime.utcnow().isoformat()\<close> are strings and the source compares them with
  Python's string order, which is the lexicographic order on code points: the order of
  \<^theory_text>\<open>List_Lexorder\<close> over \<^theory_text>\<open>Char_ord\<close>.
\<close>

record message =
  sender :: string
  msg_text :: string
  timestamp :: int
  datetime :: string

text \<open>The dictionary with the five fixed keys built by \<^verbatim>\<open>get_session\<close> and
  \<^verbatim>\<open>extract_from_message\<close>.\<close>

record intelligence =
  upi_ids :: "string list"
  phone_numbers :: "string list"
  bank_accounts :: "string list"
  phishing_links :: "string list"
  suspicious_keywords :: "string list"

text \<open>The session dictionary. The three keys that \<^verbatim>\<open>get_session\<close> does not create
  (\<^verbatim>\<open>scam_detected_at\<close>, \<^verbatim>\<open>agent_engaged_at\<close>, \<^verbatim>\<open>callback_sent_at\<close>) are optional.
  The confidence is a Python float; it is only stored and compared with the constant 0.7,
  and is modelled as a real number.\<close>

record session =
  session_id :: string
  created_at :: string
  messages :: "message list"
  scam_detected :: bool
  scam_confidence :: real
  agent_engaged :: bool
  extracted_intelligence :: intelligence
  callback_sent :: bool
  should_conclude :: bool
  scam_detected_at :: "string option"
  agent_engaged_at :: "string option"
  callback_sent_at :: "string option"

text \<open>The state of a \<^verbatim>\<open>SessionManager\<close>: the dictionary \<^verbatim>\<open>self.sessions\<close>, together with
  the wall clock the methods read. \<open>clock m n\<close> is the string returned by the \<open>n\<close>-th call
  of \<^verbatim>\<open>datetime.utcnow().isoformat()\<close>, and \<open>ticks m\<close> counts the calls made so far.\<close>

record manager =
  sessions :: "string \<rightharpoonup> session"
  clock :: "nat \<Rightarrow> string"
  ticks :: nat

definition utcnow :: "manager \<Rightarrow> string \<times> manager" where
  "utcnow m = (clock m (ticks m), m\<lparr>ticks := Suc (ticks m)\<rparr>)"

definition empty_intelligence :: intelligence where
  "empty_intelligence =
     \<lparr>upi_ids = [], phone_numbers = [], bank_accounts = [],
      phishing_links = [], suspicious_keywords = []\<rparr>"

definition new_session :: "string \<Rightarrow> string \<Rightarrow> session" where
  "new_session sid now =
     \<lparr>session_id = sid, created_at = now, messages = [],
      scam_detected = False, scam_confidence = 0, agent_engaged = False,
      extracted_intelligence = empty_intelligence,
      callback_sent = False, should_conclude = False,
      scam_detected_at = None, agent_engaged_at = None, callback_sent_at = None\<rparr>"

section \<open>IntelligenceExtractor.is\_high\_value\_intelligence\<close>

definition is_high_value_intelligence :: "intelligence \<Rightarrow> bool" where
  "is_high_value_intelligence intel =
     (let has_upi = (length (upi_ids intel) > 0);
          has_phone = (length (phone_numbers intel) > 0);
          has_link = (length (phishing_links intel) > 0);
          has_bank = (length (bank_accounts intel) > 0)
      in has_upi \<or> (has_phone \<and> has_link) \<or> has_bank)"

section \<open>SessionManager\<close>

definition put_session :: "manager \<Rightarrow> string \<Rightarrow> session \<Rightarrow> manager" where
  "put_session m sid s = m\<lparr>sessions := (sessions m)(sid \<mapsto> s)\<rparr>"

definition get_session :: "manager \<Rightarrow> string \<Rightarrow> session \<times> manager" where
  "get_session m sid =
     (case sessions m sid of
        Some s \<Rightarrow> (s, m)
      | None \<Rightarrow>
          (let (now, m1) = utcnow m; s = new_session sid now
           in (s, put_session m1 sid s)))"

definition add_message :: "manager \<Rightarrow> string \<Rightarrow> string \<Rightarrow> string \<Rightarrow> int \<Rightarrow> manager" where
  "add_message m sid sndr txt ts =
     (let (s, m1) = get_session m sid;
          (now, m2) = utcnow m1
      in put_session m2 sid
           (s\<lparr>messages := messages s @
                [\<lparr>sender = sndr, msg_text = txt, timestamp = ts, datetime = now\<rparr>]\<rparr>))"

definition mark_scam_detected :: "manager \<Rightarrow> string \<Rightarrow> real \<Rightarrow> manager" where
  "mark_scam_detected m sid confidence =
     (let (s, m1) = get_session m sid;
          (now, m2) = utcnow m1
      in put_session m2 sid
           (s\<lparr>scam_detected := True, scam_confidence := confidence,
              scam_detected_at := Some now\<rparr>))"

definition engage_agent :: "manager \<Rightarrow> string \<Rightarrow> manager" where
  "engage_agent m sid =
     (let (s, m1) = get_session m sid;
          (now, m2) = utcnow m1
      in put_session m2 sid (s\<lparr>agent_engaged := True, agent_engaged_at := Some now\<rparr>))"

text \<open>\<^verbatim>\<open>list(set(a) | set(b))\<close>: the union without duplicates. Python fixes no order for
  the resulting list; the model lists the elements in order of first occurrence, and the
  theorems below speak only of the set of elements and of the absence of duplicates.\<close>

definition merge_dedup :: "string list \<Rightarrow> string list \<Rightarrow> string list" where
  "merge_dedup xs ys = remdups (xs @ ys)"

definition merge_intelligence :: "intelligence \<Rightarrow> intelligence \<Rightarrow> intelligence" where
  "merge_intelligence current new_intelligence =
     \<lparr>upi_ids = merge_dedup (upi_ids current) (upi_ids new_intelligence),
      phone_numbers = merge_dedup (phone_numbers current) (phone_numbers new_intelligence),
      bank_accounts = merge_dedup (bank_accounts current) (bank_accounts new_intelligence),
      phishing_links = merge_dedup (phishing_links current) (phishing_links new_intelligence),
      suspicious_keywords =
        merge_dedup (suspicious_keywords current) (suspicious_keywords new_intelligence)\<rparr>"

definition update_intelligence :: "manager \<Rightarrow> string \<Rightarrow> intelligence \<Rightarrow> manager" where
  "update_intelligence m sid new_intelligence =
     (let (s, m1) = get_session m sid
      in put_session m1 sid
           (s\<lparr>extracted_intelligence :=
                merge_intelligence (extracted_intelligence s) new_intelligence\<rparr>))"

text \<open>The number of messages counted as engagement: those whose receipt time is at or
  after the engagement time, or all of them when the engagement time is absent or the
  empty string (Python's truth test on \<^verbatim>\<open>agent_engaged_at\<close>).\<close>

definition engagement_messages :: "session \<Rightarrow> nat" where
  "engagement_messages s =
     (case agent_engaged_at s of
        None \<Rightarrow> length (messages s)
      | Some t \<Rightarrow>
          (if t \<noteq> [] then length (filter (\<lambda>msg. datetime msg \<ge> t) (messages s))
           else length (messages s)))"

definition should_conclude_session :: "manager \<Rightarrow> string \<Rightarrow> bool \<times> manager" where
  "should_conclude_session m sid =
     (let (s, m1) = get_session m sid in
      if should_conclude s then (True, m1)
      else if \<not> agent_engaged s then (False, m1)
      else
        (let total_messages = length (messages s) in
         if engagement_messages s < 8 then (False, m1)
         else
           (let has_valuable_intel = is_high_value_intelligence (extracted_intelligence s);
                max_messages_reached = (total_messages \<ge> 15);
                conclude = (has_valuable_intel \<or> max_messages_reached)
            in if conclude then (True, put_session m1 sid (s\<lparr>should_conclude := True\<rparr>))
               else (False, m1))))"

definition mark_callback_sent :: "manager \<Rightarrow> string \<Rightarrow> manager" where
  "mark_callback_sent m sid =
     (let (s, m1) = get_session m sid;
          (now, m2) = utcnow m1
      in put_session m2 sid (s\<lparr>callback_sent := True, callback_sent_at := Some now\<rparr>))"

definition delete_session :: "manager \<Rightarrow> string \<Rightarrow> bool \<times> manager" where
  "delete_session m sid =
     (if sid \<in> dom (sessions m) then (True, m\<lparr>sessions := (sessions m)(sid := None)\<rparr>)
      else (False, m))"

text \<open>The operations of the store, as values, so that a later history of a session can be
  any sequence of them. \<^verbatim>\<open>get_all_sessions\<close> only reads and is not listed.\<close>

datatype store_op =
    GetSession string
  | AddMessage string string string int
  | MarkScamDetected string real
  | EngageAgent string
  | UpdateIntelligence string intelligence
  | ShouldConcludeSession string
  | MarkCallbackSent string
  | DeleteSession string

fun apply_op :: "manager \<Rightarrow> store_op \<Rightarrow> manager" where
  "apply_op m (GetSession sid) = snd (get_session m sid)"
| "apply_op m (AddMessage sid sndr txt ts) = add_message m sid sndr txt ts"
| "apply_op m (MarkScamDetected sid c) = mark_scam_detected m sid c"
| "apply_op m (EngageAgent sid) = engage_agent m sid"
| "apply_op m (UpdateIntelligence sid i) = update_intelligence m sid i"
| "apply_op m (ShouldConcludeSession sid) = snd (should_conclude_session m sid)"
| "apply_op m (MarkCallbackSent sid) = mark_callback_sent m sid"
| "apply_op m (DeleteSession sid) = snd (delete_session m sid)"

definition apply_ops :: "manager \<Rightarrow> store_op list \<Rightarrow> manager" where
  "apply_ops m ops = foldl apply_op m ops"

section \<open>Regular expressions (Python's \<^verbatim>\<open>re\<close>, as far as the extractor uses it)\<close>

text \<open>Character classes of Python's Unicode-aware \<^verbatim>\<open>re\<close> on the code points 0..255:
  \<^verbatim>\<open>\d\<close> is a decimal digit, \<^verbatim>\<open>\w\<close> an alphanumeric character or the underscore,
  \<^verbatim>\<open>\s\<close> a whitespace character.\<close>

definition is_digit :: "char \<Rightarrow> bool" where
  "is_digit c = (let n = (of_char c :: nat) in 48 \<le> n \<and> n \<le> 57)"

definition is_word :: "char \<Rightarrow> bool" where
  "is_word c =
     (let n = (of_char c :: nat) in
        (48 \<le> n \<and> n \<le> 57) \<or> (65 \<le> n \<and> n \<le> 90) \<or> n = 95 \<or> (97 \<le> n \<and> n \<le> 122) \<or>
        n = 170 \<or> n = 178 \<or> n = 179 \<or> n = 181 \<or> n = 185 \<or> n = 186 \<or>
        n = 188 \<or> n = 189 \<or> n = 190 \<or>
        (192 \<le> n \<and> n \<le> 214) \<or> (216 \<le> n \<and> n \<le> 246) \<or> 248 \<le> n)"

definition is_space :: "char \<Rightarrow> bool" where
  "is_space c =
     (let n = (of_char c :: nat) in
        (9 \<le> n \<and> n \<le> 13) \<or> (28 \<le> n \<and> n \<le> 32) \<or> n = 133 \<or> n = 160)"

text \<open>\<^verbatim>\<open>str.lower()\<close> on the code points 0..255.\<close>

definition lower_char :: "char \<Rightarrow> char" where
  "lower_char c =
     (let n = (of_char c :: nat) in
        if (65 \<le> n \<and> n \<le> 90) \<or> (192 \<le> n \<and> n \<le> 214) \<or> (216 \<le> n \<and> n \<le> 222)
        then char_of (n + 32) else c)"

definition lower :: "string \<Rightarrow> string" where
  "lower s = map lower_char s"

text \<open>The constructs the four patterns of the extractor are built from. Repetition is
  only ever applied to a character class there.\<close>

datatype regex =
    Eps
  | Chr char
  | Cls "char \<Rightarrow> bool"
  | WordB
  | Seq regex regex
  | Alt regex regex
  | Opt regex
  | Plus "char \<Rightarrow> bool"
  | Rep nat nat "char \<Rightarrow> bool"

text \<open>\<^verbatim>\<open>\b\<close>: exactly one of the two neighbouring positions holds a word character.\<close>

definition word_boundary :: "string \<Rightarrow> nat \<Rightarrow> bool" where
  "word_boundary s i =
     ((0 < i \<and> i \<le> length s \<and> is_word (s ! (i - 1))) \<noteq> (i < length s \<and> is_word (s ! i)))"

text \<open>Length of the longest run of characters of a class starting at position \<open>i\<close>.\<close>

definition run_length :: "(char \<Rightarrow> bool) \<Rightarrow> string \<Rightarrow> nat \<Rightarrow> nat" where
  "run_length p s i = length (takeWhile p (drop i s))"

text \<open>The backtracking matcher: \<open>ends r s i\<close> lists the positions at which a match of \<open>r\<close>
  starting at position \<open>i\<close> of \<open>s\<close> can end, in the order in which the backtracking search
  tries them: the first alternative before the second, an optional part present before
  absent, a greedy repetition from the longest run down to the shortest.\<close>

fun ends :: "regex \<Rightarrow> string \<Rightarrow> nat \<Rightarrow> nat list" where
  "ends Eps s i = [i]"
| "ends (Chr c) s i = (if i < length s \<and> s ! i = c then [Suc i] else [])"
| "ends (Cls p) s i = (if i < length s \<and> p (s ! i) then [Suc i] else [])"
| "ends WordB s i = (if word_boundary s i then [i] else [])"
| "ends (Seq a b) s i = concat (map (ends b s) (ends a s i))"
| "ends (Alt a b) s i = ends a s i @ ends b s i"
| "ends (Opt a) s i = ends a s i @ [i]"
| "ends (Plus p) s i = rev [Suc i ..< Suc (i + run_length p s i)]"
| "ends (Rep lo hi p) s i = rev [i + lo ..< Suc (i + min hi (run_length p s i))]"

text \<open>The match the search reports at a start position is the first one it finds.\<close>

definition match_at :: "regex \<Rightarrow> string \<Rightarrow> nat \<Rightarrow> nat option" where
  "match_at r s i = (case ends r s i of [] \<Rightarrow> None | e # _ \<Rightarrow> Some e)"

definition slice :: "string \<Rightarrow> nat \<Rightarrow> nat \<Rightarrow> string" where
  "slice s i e = take (e - i) (drop i s)"

text \<open>\<^verbatim>\<open>pattern.findall(s)\<close> for a pattern without groups: scan from the left, report the
  match at the first position that has one, continue behind it. None of the patterns
  below matches the empty string; after an empty match the scan moves on by one.\<close>

function findall_from :: "regex \<Rightarrow> string \<Rightarrow> nat \<Rightarrow> string list" where
  "findall_from r s i =
     (if length s < i then []
      else case match_at r s i of
             None \<Rightarrow> findall_from r s (Suc i)
           | Some e \<Rightarrow> slice s i e # findall_from r s (if i < e then e else Suc i))"
  by pat_completeness auto
termination
  by (relation "measure (\<lambda>(r, s, i). Suc (length s) - i)") auto

declare findall_from.simps [simp del]

definition findall :: "regex \<Rightarrow> string \<Rightarrow> string list" where
  "findall r s = findall_from r s 0"

text \<open>\<^verbatim>\<open>re.sub(r'^(...)', '', s)\<close>: the pattern is anchored at the start of the string, so
  the only match that can be replaced is one at position 0.\<close>

definition sub_anchored :: "regex \<Rightarrow> string \<Rightarrow> string" where
  "sub_anchored r s = (case match_at r s 0 of None \<Rightarrow> s | Some e \<Rightarrow> drop e s)"

fun lit :: "string \<Rightarrow> regex" where
  "lit [] = Eps"
| "lit [c] = Chr c"
| "lit (c # cs) = Seq (Chr c) (lit cs)"

section \<open>IntelligenceExtractor\<close>

definition upi_local :: "char \<Rightarrow> bool" where
  "upi_local c = (is_word c \<or> c = CHR ''.'' \<or> c = CHR ''-'')"

definition upi_domain :: "char \<Rightarrow> bool" where
  "upi_domain c = (is_word c \<or> c = CHR ''-'')"

definition six_to_nine :: "char \<Rightarrow> bool" where
  "six_to_nine c = (let n = (of_char c :: nat) in 54 \<le> n \<and> n \<le> 57)"

definition not_space :: "char \<Rightarrow> bool" where
  "not_space c = (\<not> is_space c)"

text \<open>\<^verbatim>\<open>\b[\w\.-]+@[\w-]+\b\<close>\<close>

definition upi_pattern :: regex where
  "upi_pattern =
     Seq WordB (Seq (Plus upi_local) (Seq (Chr CHR ''@'') (Seq (Plus upi_domain) WordB)))"

text \<open>\<^verbatim>\<open>(\+91|91|0)\<close>\<close>

definition phone_prefix :: regex where
  "phone_prefix = Alt (lit ''+91'') (Alt (lit ''91'') (lit ''0''))"

text \<open>\<^verbatim>\<open>(?:\+91|91|0)?[6-9]\d{9}\b\<close>\<close>

definition phone_pattern :: regex where
  "phone_pattern =
     Seq (Opt phone_prefix) (Seq (Cls six_to_nine) (Seq (Rep 9 9 is_digit) WordB))"

text \<open>\<^verbatim>\<open>\b\d{9,18}\b\<close>\<close>

definition bank_account_pattern :: regex where
  "bank_account_pattern = Seq WordB (Seq (Rep 9 18 is_digit) WordB)"

text \<open>\<^verbatim>\<open>https?://[^\s]+|www\.[^\s]+|bit\.ly/[^\s]+|tinyurl\.com/[^\s]+\<close>\<close>

definition url_pattern :: regex where
  "url_pattern =
     Alt (Seq (lit ''http'') (Seq (Opt (Chr CHR ''s'')) (Seq (lit ''://'') (Plus not_space))))
    (Alt (Seq (lit ''www.'') (Plus not_space))
    (Alt (Seq (lit ''bit.ly/'') (Plus not_space))
         (Seq (lit ''tinyurl.com/'') (Plus not_space))))"

definition suspicious_keywords_list :: "string list" where
  "suspicious_keywords_list =
     [''kyc'', ''update'', ''verify'', ''account'', ''blocked'', ''suspended'',
      ''otp'', ''cvv'', ''pin'', ''password'', ''aadhaar'', ''pan'',
      ''prize'', ''lottery'', ''won'', ''congratulations'',
      ''urgent'', ''immediately'', ''expire'', ''cancel'',
      ''refund'', ''tax'', ''cashback'', ''reward'',
      ''click here'', ''download'', ''apk'', ''install'',
      ''bank'', ''axis'', ''hdfc'', ''sbi'', ''icici'', ''paytm'', ''phonepe'', ''googlepay'',
      ''police'', ''arrest'', ''court'', ''legal action'',
      ''loan approved'', ''credit card'', ''offer'',
      ''delivery'', ''courier'', ''parcel'', ''custom duty'']"

text \<open>The names tested by the filter on the matches of the handle pattern.\<close>

definition upi_banks :: "string list" where
  "upi_banks =
     [''paytm'', ''phonepe'', ''gpay'', ''ybl'', ''okaxis'', ''okhdfcbank'', ''oksbi'', ''okicici'']"

text \<open>Python's \<^verbatim>\<open>a in b\<close> on strings is \<^term>\<open>sublist a b\<close>; \<^verbatim>\<open>list(set(xs))\<close> is
  \<^term>\<open>remdups xs\<close> up to the order of the elements.\<close>

definition extract_from_message :: "string \<Rightarrow> intelligence" where
  "extract_from_message message =
     (let message_lower = lower message;
          upi_matches = findall upi_pattern message;
          upis = filter (\<lambda>upi. list_ex (\<lambda>bank. sublist bank (lower upi)) upi_banks) upi_matches;
          phone_matches = findall phone_pattern message;
          cleaned_phones =
            filter (\<lambda>clean. length clean = 10) (map (sub_anchored phone_prefix) phone_matches);
          account_matches = findall bank_account_pattern message;
          potential_accounts =
            filter (\<lambda>acc. acc \<notin> set cleaned_phones \<and> length acc \<ge> 11) account_matches;
          url_matches = findall url_pattern message;
          found_keywords =
            filter (\<lambda>keyword. sublist keyword message_lower) suspicious_keywords_list
      in \<lparr>upi_ids = remdups upis,
          phone_numbers = remdups cleaned_phones,
          bank_accounts = remdups potential_accounts,
          phishing_links = remdups url_matches,
          suspicious_keywords = remdups found_keywords\<rparr>)"

text \<open>The loop over the messages keeps one set per key and adds each message's lists to
  them; the sets are duplicate-free lists here.\<close>

definition extract_from_conversation :: "message list \<Rightarrow> intelligence" where
  "extract_from_conversation msgs =
     foldl (\<lambda>aggregated msg. merge_intelligence aggregated (extract_from_message (msg_text msg)))
       empty_intelligence msgs"

section \<open>The orchestrator (main.py)\<close>

datatype sender_type = SCAMMER | USER

fun sender_value :: "sender_type \<Rightarrow> string" where
  "sender_value SCAMMER = ''scammer''"
| "sender_value USER = ''user''"

text \<open>The request body. Its \<^verbatim>\<open>conversationHistory\<close> and \<^verbatim>\<open>metadata\<close> are only handed to
  the classifier and the responder, which are outside the program, and are left out.\<close>

record incoming_message =
  in_sender :: sender_type
  in_text :: string
  in_timestamp :: int

record incoming_request =
  sessionId :: string
  in_message :: incoming_message

record api_response =
  status :: string
  reply :: string

datatype http_error = HTTPException nat string

text \<open>What the classifier and the responder answer during one request. Both catch their
  own exceptions and always return a value: \<^verbatim>\<open>detect_scam\<close> a pair of a verdict and a
  confidence, each \<^verbatim>\<open>generate_...\<close> method a text.\<close>

record collaborators =
  detect_scam :: "bool \<times> real"
  generate_initial_response :: string
  generate_response :: string
  generate_neutral_response :: string
  generate_final_response :: string

text \<open>The result of a request: the HTTP answer, the session for which the task
  \<^verbatim>\<open>send_final_callback\<close> was created (if any), and the store afterwards.\<close>

record outcome =
  answer :: "http_error + api_response"
  callback_task :: "string option"
  store :: manager

text \<open>Python's \<^verbatim>\<open>a or b\<close> on optional header values: \<open>a\<close> unless it is absent or empty.\<close>

definition py_or :: "string option \<Rightarrow> string option \<Rightarrow> string option" where
  "py_or a b = (case a of None \<Rightarrow> b | Some k \<Rightarrow> (if k \<noteq> [] then a else b))"

definition success :: "string \<Rightarrow> http_error + api_response" where
  "success r = Inr \<lparr>status = ''success'', reply = r\<rparr>"

text \<open>The session object fetched at the start of the request is the dictionary held by the
  store, so every later read of it sees the updates made in between; the model reads it
  from the store again.\<close>

definition stored :: "manager \<Rightarrow> string \<Rightarrow> session" where
  "stored m sid = fst (get_session m sid)"

definition chat_endpoint ::
  "string \<Rightarrow> string option \<Rightarrow> string option \<Rightarrow> incoming_request \<Rightarrow> collaborators \<Rightarrow> manager
     \<Rightarrow> outcome" where
  "chat_endpoint API_KEY x_api_key X_API_KEY request ext m =
     (case py_or x_api_key X_API_KEY of
        None \<Rightarrow>
          \<lparr>answer = Inl (HTTPException 401 ''API key required''), callback_task = None, store = m\<rparr>
      | Some api_key \<Rightarrow>
          if api_key = [] then
            \<lparr>answer = Inl (HTTPException 401 ''API key required''), callback_task = None, store = m\<rparr>
          else if api_key \<noteq> API_KEY then
            \<lparr>answer = Inl (HTTPException 403 ''Invalid API Key''), callback_task = None, store = m\<rparr>
          else
            (let sid = sessionId request;
                 incoming = in_text (in_message request);
                 m1 = snd (get_session m sid);
                 m2 = add_message m1 sid (sender_value (in_sender (in_message request)))
                        incoming (in_timestamp (in_message request));
                 session = stored m2 sid
             in
               if scam_detected session \<and> agent_engaged session then
                 (let (conclude, m3) = should_conclude_session m2 sid in
                  if conclude then
                    \<lparr>answer = success (generate_final_response ext),
                     callback_task = Some sid, store = m3\<rparr>
                  else
                    (let intelligence = extract_from_message incoming;
                         m4 = update_intelligence m3 sid intelligence
                     in \<lparr>answer = success (generate_response ext),
                         callback_task = None, store = m4\<rparr>))
               else if \<not> scam_detected session then
                 (let (is_scam, confidence) = detect_scam ext in
                  if is_scam \<and> confidence > 7 / 10 then
                    (let m3 = mark_scam_detected m2 sid confidence;
                         m4 = engage_agent m3 sid
                     in \<lparr>answer = success (generate_initial_response ext),
                         callback_task = None, store = m4\<rparr>)
                  else
                    \<lparr>answer = success (generate_neutral_response ext),
                     callback_task = None, store = m2\<rparr>)
               else
                 \<lparr>answer =
                    success ''I'm sorry, I didn't quite understand. Could you please clarify?'',
                  callback_task = None, store = m2\<rparr>))"

text \<open>The report built by \<^verbatim>\<open>send_final_callback\<close> from the session when the task runs.
  The free-text \<^verbatim>\<open>agentNotes\<close> (counts and a formatted float) are left out.\<close>

record final_callback =
  cb_sessionId :: string
  scamDetected :: bool
  totalMessagesExchanged :: nat
  extractedIntelligence :: intelligence

definition callback_payload :: "string \<Rightarrow> session \<Rightarrow> final_callback" where
  "callback_payload sid session =
     \<lparr>cb_sessionId = sid, scamDetected = True,
      totalMessagesExchanged = length (messages session),
      extractedIntelligence = extracted_intelligence session\<rparr>"

text \<open>The task posts the report; the session is marked only when the sink answers 200.\<close>

definition send_final_callback :: "manager \<Rightarrow> string \<Rightarrow> nat \<Rightarrow> final_callback \<times> manager" where
  "send_final_callback m sid status_code =
     (let payload = callback_payload sid (stored m sid)
      in (payload, if status_code = 200 then mark_callback_sent m sid else m))"

section \<open>Notions used to state the properties\<close>

text \<open>The part of a handle token behind its \<^verbatim>\<open>@\<close>.\<close>

definition domain_part :: "string \<Rightarrow> string" where
  "domain_part tok = drop 1 (dropWhile (\<lambda>c. c \<noteq> CHR ''@'') tok)"

text \<open>The specification's reading of the filter on handle tokens: the domain part of the
  token matches one of the provider names.\<close>

definition domain_allow_listed :: "string \<Rightarrow> bool" where
  "domain_allow_listed tok = list_ex (\<lambda>bank. sublist bank (lower (domain_part tok))) upi_banks"

text \<open>The sets of entries of a bundle, field by field.\<close>

definition field_sets :: "intelligence \<Rightarrow> string set list" where
  "field_sets b =
     [set (upi_ids b), set (phone_numbers b), set (bank_accounts b),
      set (phishing_links b), set (suspicious_keywords b)]"

definition fields_distinct :: "intelligence \<Rightarrow> bool" where
  "fields_distinct b =
     (distinct (upi_ids b) \<and> distinct (phone_numbers b) \<and> distinct (bank_accounts b) \<and>
      distinct (phishing_links b) \<and> distinct (suspicious_keywords b))"

text \<open>A phone number stands at position \<open>k\<close> of a text: ten digits, the first of them 6 to
  9, followed by the end of the text or by a character that is not a word character.\<close>

definition phone_at :: "string \<Rightarrow> nat \<Rightarrow> bool" where
  "phone_at m k =
     (k + 10 \<le> length m \<and> six_to_nine (m ! k) \<and> list_all is_digit (slice m k (k + 10)) \<and>
      (k + 10 = length m \<or> \<not> is_word (m ! (k + 10))))"

text \<open>The number at position \<open>k\<close> is directly preceded by \<^verbatim>\<open>+91\<close>, \<^verbatim>\<open>91\<close> or \<^verbatim>\<open>0\<close>.\<close>

definition preceded_by_prefix :: "string \<Rightarrow> nat \<Rightarrow> bool" where
  "preceded_by_prefix m k =
     ((3 \<le> k \<and> slice m (k - 3) k = ''+91'') \<or> (2 \<le> k \<and> slice m (k - 2) k = ''91'') \<or>
      (1 \<le> k \<and> slice m (k - 1) k = ''0''))"

text \<open>A session is concluded in a store when it is present with its flag set.\<close>

definition concluded :: "manager \<Rightarrow> string \<Rightarrow> bool" where
  "concluded m sid = (case sessions m sid of Some s \<Rightarrow> should_conclude s | None \<Rightarrow> False)"

text \<open>The key check of \<^verbatim>\<open>chat_endpoint\<close> lets the request through.\<close>

definition authorised :: "string \<Rightarrow> string option \<Rightarrow> string option \<Rightarrow> bool" where
  "authorised API_KEY x_api_key X_API_KEY =
     (case py_or x_api_key X_API_KEY of None \<Rightarrow> False | Some k \<Rightarrow> k \<noteq> [] \<and> k = API_KEY)"

text \<open>The message that \<^verbatim>\<open>chat_endpoint\<close> appends for a request received at time \<open>now\<close>.\<close>

definition incoming :: "incoming_request \<Rightarrow> string \<Rightarrow> message" where
  "incoming request now =
     \<lparr>sender = sender_value (in_sender (in_message request)),
      msg_text = in_text (in_message request),
      timestamp = in_timestamp (in_message request), datetime = now\<rparr>"

text \<open>The union, field by field, of what \<^verbatim>\<open>extract_from_message\<close> finds in the
  messages of a conversation.\<close>

definition extracted_sets :: "message list \<Rightarrow> string set list" where
  "extracted_sets msgs =
     [(\<Union>msg\<in>set msgs. set (upi_ids (extract_from_message (msg_text msg)))),
      (\<Union>msg\<in>set msgs. set (phone_numbers (extract_from_message (msg_text msg)))),
      (\<Union>msg\<in>set msgs. set (bank_accounts (extract_from_message (msg_text msg)))),
      (\<Union>msg\<in>set msgs. set (phishing_links (extract_from_message (msg_text msg)))),
      (\<Union>msg\<in>set msgs. set (suspicious_keywords (extract_from_message (msg_text msg))))]"

section \<open>Example data\<close>

definition example_message :: "string \<Rightarrow> string \<Rightarrow> message" where
  "example_message txt d = \<lparr>sender = ''scammer'', msg_text = txt, timestamp = 0, datetime = d\<rparr>"

text \<open>An engaged session with \<open>before\<close> messages received before the engagement and
  \<open>after\<close> messages received after it.\<close>

definition example_session :: "nat \<Rightarrow> nat \<Rightarrow> intelligence \<Rightarrow> session" where
  "example_session before after intel =
     (new_session ''s1'' ''2024-01-01T09:00:00'')
       \<lparr>messages := replicate before (example_message ''hello'' ''2024-01-01T10:00:00'') @
                    replicate after (example_message ''hello'' ''2024-01-01T10:06:00''),
        scam_detected := True, scam_confidence := 9 / 10, agent_engaged := True,
        extracted_intelligence := intel,
        scam_detected_at := Some ''2024-01-01T10:05:00'',
        agent_engaged_at := Some ''2024-01-01T10:05:00''\<rparr>"

definition example_manager :: "session \<Rightarrow> manager" where
  "example_manager s =
     \<lparr>sessions = [''s1'' \<mapsto> s], clock = (\<lambda>n. ''2024-01-01T10:07:00''), ticks = 0\<rparr>"

definition example_handle :: intelligence where
  "example_handle = empty_intelligence\<lparr>upi_ids := [''9876543210@paytm'']\<rparr>"

definition example_ops :: "store_op list" where
  "example_ops =
     [AddMessage ''s1'' ''scammer'' ''hello again'' 5,
      UpdateIntelligence ''s1'' empty_intelligence,
      MarkCallbackSent ''s1'',
      DeleteSession ''s2'',
      EngageAgent ''s1'',
      ShouldConcludeSession ''s1'']"

definition example_request :: "string \<Rightarrow> incoming_request" where
  "example_request txt =
     \<lparr>sessionId = ''s1'',
      in_message = \<lparr>in_sender = SCAMMER, in_text = txt, in_timestamp = 1700000000\<rparr>\<rparr>"

definition example_answers :: "bool \<Rightarrow> real \<Rightarrow> collaborators" where
  "example_answers verdict c =
     \<lparr>detect_scam = (verdict, c),
      generate_initial_response = ''Oh my god, which account sir?'',
      generate_response = ''One moment, let me check.'',
      generate_neutral_response = ''Hello, who is this?'',
      generate_final_response = ''I will call you later.''\<rparr>"

definition example_store :: manager where
  "example_store = \<lparr>sessions = Map.empty, clock = (\<lambda>n. ''2024-01-01T10:07:00''), ticks = 0\<rparr>"

section \<open>The session store and the conclusion policy\<close>

lemmas store_defs = get_session_def utcnow_def put_session_def add_message_def
  mark_scam_detected_def engage_agent_def update_intelligence_def should_conclude_session_def
  mark_callback_sent_def delete_session_def

lemma get_session_existing: "sessions m sid = Some s \<Longrightarrow> get_session m sid = (s, m)"
  by (simp add: get_session_def)

lemma apply_op_concluded:
  "concluded m sid \<Longrightarrow> op \<noteq> DeleteSession sid \<Longrightarrow> concluded (apply_op m op) sid"
  by (cases op)
     (auto simp: concluded_def store_defs Let_def split: option.splits if_splits prod.splits)

lemma apply_ops_concluded:
  "concluded m sid \<Longrightarrow> DeleteSession sid \<notin> set ops \<Longrightarrow> concluded (apply_ops m ops) sid"
  unfolding apply_ops_def
proof (induction ops arbitrary: m)
  case Nil
  then show ?case by simp
next
  case (Cons op ops)
  from Cons.prems have "concluded (apply_op m op) sid"
    by (intro apply_op_concluded) auto
  with Cons show ?case by simp
qed

lemma should_conclude_true_concluded:
  "should_conclude_session m sid = (True, m1) \<Longrightarrow> concluded m1 sid"
  by (auto simp: concluded_def store_defs Let_def split: option.splits if_splits prod.splits)

lemma concluded_returns_true:
  "concluded m sid \<Longrightarrow> should_conclude_session m sid = (True, m)"
  by (auto simp: concluded_def store_defs Let_def split: option.splits if_splits prod.splits)

lemma apply_op_flag_kept:
  "sessions m sid = Some s \<Longrightarrow> should_conclude s \<Longrightarrow> sessions (apply_op m op) sid = Some s'
     \<Longrightarrow> should_conclude s'"
  by (cases op)
     (auto simp: store_defs Let_def split: option.splits if_splits prod.splits)

lemma example_lookup: "sessions (example_manager s) ''s1'' = Some s"
  by (simp add: example_manager_def)

lemma example_fields:
  "agent_engaged (example_session b a i)"
  "\<not> should_conclude (example_session b a i)"
  "agent_engaged_at (example_session b a i) = Some ''2024-01-01T10:05:00''"
  "length (messages (example_session b a i)) = b + a"
  "length (filter (\<lambda>msg. ''2024-01-01T10:05:00'' \<le> datetime msg)
     (messages (example_session b a i))) = a"
  "extracted_intelligence (example_session b a i) = i"
  "scam_detected (example_session b a i)"
  by (simp_all add: example_session_def new_session_def example_message_def)

text \<open>
  \<^bold>\<open>C1.\<close> As stated for every later store operation the property fails: \<^verbatim>\<open>delete_session\<close>
  removes the session, and the next call creates a fresh one under the same identifier,
  with the flag false (see the counterexample below). What holds is this. Once
  \<^verbatim>\<open>should_conclude_session\<close> has returned true for a session, it returns true (and changes
  nothing) after every later sequence of store operations on any sessions, whatever they
  do to the message log or the intelligence of the session, as long as none of them is
  \<^verbatim>\<open>delete_session\<close> on that session. Moreover no single store operation leaves the
  session in the store with a flag that went from true to false.
\<close>

theorem should_conclude_session_sticky:
  "(should_conclude_session m sid = (True, m1) \<longrightarrow>
      (\<forall>ops. DeleteSession sid \<notin> set ops \<longrightarrow>
         should_conclude_session (apply_ops m1 ops) sid = (True, apply_ops m1 ops))) \<and>
   (\<forall>op s s'. sessions m sid = Some s \<and> should_conclude s \<and>
        sessions (apply_op m op) sid = Some s' \<longrightarrow> should_conclude s')"
  using should_conclude_true_concluded apply_ops_concluded concluded_returns_true apply_op_flag_kept
  by blast

theorem should_conclude_session_sticky_witness:
  "should_conclude_session (example_manager (example_session 0 8 example_handle)) ''s1'' =
     (True, example_manager ((example_session 0 8 example_handle)\<lparr>should_conclude := True\<rparr>)) \<and>
   DeleteSession ''s1'' \<notin> set example_ops \<and>
   should_conclude_session
     (apply_ops (example_manager ((example_session 0 8 example_handle)\<lparr>should_conclude := True\<rparr>))
        example_ops) ''s1'' =
     (True, apply_ops (example_manager ((example_session 0 8 example_handle)\<lparr>should_conclude := True\<rparr>))
        example_ops) \<and>
   should_conclude (example_session 0 8 example_handle\<lparr>should_conclude := True\<rparr>) \<and>
   (\<exists>s'. sessions (apply_op
              (example_manager ((example_session 0 8 example_handle)\<lparr>should_conclude := True\<rparr>))
              (EngageAgent ''s1'')) ''s1'' = Some s' \<and> should_conclude s')"
proof -
  let ?m = "example_manager (example_session 0 8 example_handle)"
  let ?m1 = "example_manager ((example_session 0 8 example_handle)\<lparr>should_conclude := True\<rparr>)"
  have h: "should_conclude_session ?m ''s1'' = (True, ?m1)"
    by (simp add: should_conclude_session_def get_session_existing example_lookup
        engagement_messages_def example_fields is_high_value_intelligence_def example_handle_def
        empty_intelligence_def put_session_def example_manager_def)
  have d: "DeleteSession ''s1'' \<notin> set example_ops"
    by (simp add: example_ops_def)
  have l: "sessions ?m1 ''s1'' = Some (example_session 0 8 example_handle\<lparr>should_conclude := True\<rparr>)"
    by (rule example_lookup)
  have f: "should_conclude (example_session 0 8 example_handle\<lparr>should_conclude := True\<rparr>)"
    by simp
  from should_conclude_session_sticky [of ?m "''s1''" ?m1] h d have
    "should_conclude_session (apply_ops ?m1 example_ops) ''s1'' = (True, apply_ops ?m1 example_ops)"
    by blast
  moreover have "\<exists>s'. sessions (apply_op ?m1 (EngageAgent ''s1'')) ''s1'' = Some s'"
    by (simp add: engage_agent_def get_session_existing example_lookup utcnow_def put_session_def)
  with should_conclude_session_sticky [of ?m1 "''s1''"] l f have
    "\<exists>s'. sessions (apply_op ?m1 (EngageAgent ''s1'')) ''s1'' = Some s' \<and> should_conclude s'"
    by blast
  ultimately show ?thesis using h d f by blast
qed

text \<open>The counterexample to the unrestricted statement: the call has returned true, the
  session is deleted, and the next call returns false; after \<^verbatim>\<open>delete_session\<close> and
  \<^verbatim>\<open>get_session\<close> the identifier names a session whose flag is false.\<close>

theorem should_conclude_session_sticky_counterexample:
  "should_conclude_session (example_manager (example_session 0 8 example_handle)) ''s1'' =
     (True, example_manager ((example_session 0 8 example_handle)\<lparr>should_conclude := True\<rparr>)) \<and>
   \<not> fst (should_conclude_session
     (apply_ops (example_manager ((example_session 0 8 example_handle)\<lparr>should_conclude := True\<rparr>))
        [DeleteSession ''s1'']) ''s1'') \<and>
   (\<exists>s'. sessions
     (apply_ops (example_manager ((example_session 0 8 example_handle)\<lparr>should_conclude := True\<rparr>))
        [DeleteSession ''s1'', GetSession ''s1'']) ''s1'' = Some s' \<and> \<not> should_conclude s')"
proof -
  let ?m = "example_manager (example_session 0 8 example_handle)"
  let ?m1 = "example_manager ((example_session 0 8 example_handle)\<lparr>should_conclude := True\<rparr>)"
  have h: "should_conclude_session ?m ''s1'' = (True, ?m1)"
    by (simp add: should_conclude_session_def get_session_existing example_lookup
        engagement_messages_def example_fields is_high_value_intelligence_def example_handle_def
        empty_intelligence_def put_session_def example_manager_def)
  have d: "sessions (apply_ops ?m1 [DeleteSession ''s1'']) ''s1'' = None"
    by (simp add: apply_ops_def delete_session_def example_manager_def)
  have f: "\<not> fst (should_conclude_session (apply_ops ?m1 [DeleteSession ''s1'']) ''s1'')"
    by (simp add: should_conclude_session_def get_session_def d utcnow_def new_session_def
        Let_def split: prod.splits)
  have g: "sessions (apply_ops ?m1 [DeleteSession ''s1'', GetSession ''s1'']) ''s1'' =
      Some (new_session ''s1'' ''2024-01-01T10:07:00'')"
    using d by (simp add: apply_ops_def get_session_def utcnow_def put_session_def Let_def
        delete_session_def example_manager_def)
  have "\<not> should_conclude (new_session ''s1'' ''2024-01-01T10:07:00'')"
    by (simp add: new_session_def)
  with h f g show ?thesis by blast
qed

text \<open>
  \<^bold>\<open>C2.\<close> For an engaged session whose flag is not yet set and in which fewer than 8
  messages have a receipt time at or after the engagement time,
  \<^verbatim>\<open>should_conclude_session\<close> returns false and leaves the store as it is, whatever the
  intelligence bundle and the total number of messages are.
\<close>

theorem engagement_floor:
  "sessions m sid = Some s \<Longrightarrow> agent_engaged s \<Longrightarrow> \<not> should_conclude s \<Longrightarrow>
   agent_engaged_at s = Some t \<Longrightarrow> t \<noteq> [] \<Longrightarrow>
   length (filter (\<lambda>msg. t \<le> datetime msg) (messages s)) < 8 \<Longrightarrow>
   should_conclude_session m sid = (False, m)"
  by (simp add: should_conclude_session_def get_session_existing engagement_messages_def)

text \<open>The witness: 15 messages, 7 of them after the engagement, and a high-value bundle.\<close>

theorem engagement_floor_witness:
  "is_high_value_intelligence example_handle \<and>
   length (messages (example_session 8 7 example_handle)) = 15 \<and>
   length (filter (\<lambda>msg. ''2024-01-01T10:05:00'' \<le> datetime msg)
     (messages (example_session 8 7 example_handle))) = 7 \<and>
   should_conclude_session (example_manager (example_session 8 7 example_handle)) ''s1'' =
     (False, example_manager (example_session 8 7 example_handle))"
proof -
  have "is_high_value_intelligence example_handle"
    by (simp add: example_handle_def is_high_value_intelligence_def empty_intelligence_def)
  moreover have
    "should_conclude_session (example_manager (example_session 8 7 example_handle)) ''s1'' =
       (False, example_manager (example_session 8 7 example_handle))"
    by (rule engagement_floor
          [OF example_lookup example_fields(1) example_fields(2) example_fields(3)])
       (simp_all add: example_fields)
  ultimately show ?thesis by (simp add: example_fields)
qed

text \<open>
  \<^bold>\<open>C3.\<close> For an engaged session with at least 8 messages received at or after the
  engagement time and at least 15 messages in total, \<^verbatim>\<open>should_conclude_session\<close> returns
  true and sets the flag; nothing is assumed about the intelligence bundle, which may be
  empty.
\<close>

theorem hard_ceiling:
  "sessions m sid = Some s \<Longrightarrow> agent_engaged s \<Longrightarrow>
   agent_engaged_at s = Some t \<Longrightarrow> t \<noteq> [] \<Longrightarrow>
   8 \<le> length (filter (\<lambda>msg. t \<le> datetime msg) (messages s)) \<Longrightarrow>
   15 \<le> length (messages s) \<Longrightarrow>
   fst (should_conclude_session m sid) \<and>
   (\<exists>s'. sessions (snd (should_conclude_session m sid)) sid = Some s' \<and> should_conclude s')"
  by (simp add: should_conclude_session_def get_session_existing engagement_messages_def
      put_session_def Let_def)

theorem hard_ceiling_witness:
  "extracted_intelligence (example_session 7 8 empty_intelligence) = empty_intelligence \<and>
   length (messages (example_session 7 8 empty_intelligence)) = 15 \<and>
   fst (should_conclude_session (example_manager (example_session 7 8 empty_intelligence)) ''s1'') \<and>
   (\<exists>s'. sessions (snd (should_conclude_session
             (example_manager (example_session 7 8 empty_intelligence)) ''s1'')) ''s1'' = Some s' \<and>
         should_conclude s')"
  using hard_ceiling [OF example_lookup example_fields(1) example_fields(3), of 7 8 empty_intelligence]
  by (simp add: example_fields)

text \<open>
  \<^bold>\<open>C5.\<close> A bundle is of high value exactly when it holds at least one payment handle, or
  at least one phone number together with at least one link, or at least one bank account;
  in particular a bundle whose only entry is one payment handle is of high value.
\<close>

theorem high_value_iff:
  "(is_high_value_intelligence b \<longleftrightarrow>
      1 \<le> length (upi_ids b) \<or>
      (1 \<le> length (phone_numbers b) \<and> 1 \<le> length (phishing_links b)) \<or>
      1 \<le> length (bank_accounts b)) \<and>
   is_high_value_intelligence (empty_intelligence\<lparr>upi_ids := [handle]\<rparr>)"
  by (auto simp: is_high_value_intelligence_def empty_intelligence_def Let_def Suc_le_eq)

section \<open>Accumulation of intelligence\<close>

lemma field_sets_merge:
  "field_sets (merge_intelligence a b) = map2 (\<union>) (field_sets a) (field_sets b)"
  by (simp add: field_sets_def merge_intelligence_def merge_dedup_def)

lemma fields_distinct_merge: "fields_distinct (merge_intelligence a b)"
  by (simp add: fields_distinct_def merge_intelligence_def merge_dedup_def)

lemma stored_update_intelligence:
  "stored (update_intelligence m sid new) sid =
     (stored m sid)\<lparr>extracted_intelligence :=
        merge_intelligence (extracted_intelligence (stored m sid)) new\<rparr>"
  by (auto simp: stored_def store_defs Let_def split: option.splits prod.splits)

lemma foldl_merge_sets:
  "field_sets (foldl (\<lambda>aggregated msg.
       merge_intelligence aggregated (extract_from_message (msg_text msg))) acc msgs) =
   map2 (\<union>) (field_sets acc) (extracted_sets msgs)"
proof (induction msgs arbitrary: acc)
  case Nil
  then show ?case by (simp add: field_sets_def extracted_sets_def)
next
  case (Cons msg msgs)
  show ?case
    by (simp add: Cons.IH) (auto simp: field_sets_def extracted_sets_def merge_intelligence_def merge_dedup_def)
qed

lemma foldl_merge_distinct:
  "fields_distinct acc \<Longrightarrow> fields_distinct (foldl (\<lambda>aggregated msg.
       merge_intelligence aggregated (extract_from_message (msg_text msg))) acc msgs)"
  by (induction msgs arbitrary: acc) (simp_all add: fields_distinct_merge)

lemma conversation_sets: "field_sets (extract_from_conversation msgs) = extracted_sets msgs"
  by (simp add: extract_from_conversation_def foldl_merge_sets)
     (simp add: field_sets_def empty_intelligence_def extracted_sets_def)

lemma conversation_distinct: "fields_distinct (extract_from_conversation msgs)"
  unfolding extract_from_conversation_def
  by (rule foldl_merge_distinct) (simp add: fields_distinct_def empty_intelligence_def)

lemma extracted_sets_cong: "set msgs' = set msgs \<Longrightarrow> extracted_sets msgs' = extracted_sets msgs"
  by (simp add: extracted_sets_def)

lemma extracted_sets_again:
  "msg_text msg' = msg_text msg \<Longrightarrow> msg \<in> set msgs \<Longrightarrow>
   extracted_sets (msgs @ [msg']) = extracted_sets msgs"
  by (auto simp: extracted_sets_def)

text \<open>
  \<^bold>\<open>C9.\<close> \<^verbatim>\<open>update_intelligence\<close> replaces each field of the session's bundle by the
  union of its entries with those of the new bundle, without duplicates; the bundle of
  \<^verbatim>\<open>extract_from_conversation\<close> holds, field by field and without duplicates, the union of
  what \<^verbatim>\<open>extract_from_message\<close> finds in the messages. Hence the sets of entries do not
  depend on the order of the messages, and do not change when a text already processed is
  processed again.
\<close>

theorem intelligence_union:
  "field_sets (extracted_intelligence (stored (update_intelligence m sid new) sid)) =
     map2 (\<union>) (field_sets (extracted_intelligence (stored m sid))) (field_sets new) \<and>
   fields_distinct (extracted_intelligence (stored (update_intelligence m sid new) sid)) \<and>
   field_sets (extract_from_conversation msgs) = extracted_sets msgs \<and>
   fields_distinct (extract_from_conversation msgs) \<and>
   (mset msgs' = mset msgs \<longrightarrow>
      field_sets (extract_from_conversation msgs') = field_sets (extract_from_conversation msgs)) \<and>
   (msg \<in> set msgs \<and> msg_text msg' = msg_text msg \<longrightarrow>
      field_sets (extract_from_conversation (msgs @ [msg'])) =
      field_sets (extract_from_conversation msgs))"
proof (intro conjI impI)
  show "field_sets (extracted_intelligence (stored (update_intelligence m sid new) sid)) =
     map2 (\<union>) (field_sets (extracted_intelligence (stored m sid))) (field_sets new)"
    by (simp add: stored_update_intelligence field_sets_merge)
  show "fields_distinct (extracted_intelligence (stored (update_intelligence m sid new) sid))"
    by (simp add: stored_update_intelligence fields_distinct_merge)
  show "field_sets (extract_from_conversation msgs) = extracted_sets msgs"
    by (rule conversation_sets)
  show "fields_distinct (extract_from_conversation msgs)"
    by (rule conversation_distinct)
next
  assume "mset msgs' = mset msgs"
  then have "set msgs' = set msgs"
    by (rule mset_eq_setD)
  then have "extracted_sets msgs' = extracted_sets msgs"
    by (rule extracted_sets_cong)
  then show "field_sets (extract_from_conversation msgs') =
      field_sets (extract_from_conversation msgs)"
    by (simp only: conversation_sets)
next
  assume "msg \<in> set msgs \<and> msg_text msg' = msg_text msg"
  then have "extracted_sets (msgs @ [msg']) = extracted_sets msgs"
    by (intro extracted_sets_again [of msg' msg]) simp_all
  then show "field_sets (extract_from_conversation (msgs @ [msg'])) =
      field_sets (extract_from_conversation msgs)"
    by (simp only: conversation_sets)
qed


theorem intelligence_union_witness:
  "mset [example_message ''call 9876543210'' ''t2'', example_message ''pay 9876543210@paytm'' ''t1''] =
   mset [example_message ''pay 9876543210@paytm'' ''t1'', example_message ''call 9876543210'' ''t2''] \<and>
   field_sets (extract_from_conversation
     [example_message ''call 9876543210'' ''t2'', example_message ''pay 9876543210@paytm'' ''t1'']) =
   field_sets (extract_from_conversation
     [example_message ''pay 9876543210@paytm'' ''t1'', example_message ''call 9876543210'' ''t2'']) \<and>
   example_message ''call 9876543210'' ''t2'' \<in>
     set [example_message ''pay 9876543210@paytm'' ''t1'', example_message ''call 9876543210'' ''t2''] \<and>
   msg_text (example_message ''call 9876543210'' ''t3'') =
     msg_text (example_message ''call 9876543210'' ''t2'') \<and>
   field_sets (extract_from_conversation
     ([example_message ''pay 9876543210@paytm'' ''t1'', example_message ''call 9876543210'' ''t2''] @
      [example_message ''call 9876543210'' ''t3''])) =
   field_sets (extract_from_conversation
     [example_message ''pay 9876543210@paytm'' ''t1'', example_message ''call 9876543210'' ''t2''])"
proof -
  let ?a = "example_message ''pay 9876543210@paytm'' ''t1''"
  let ?b = "example_message ''call 9876543210'' ''t2''"
  let ?c = "example_message ''call 9876543210'' ''t3''"
  have p: "mset [?b, ?a] = mset [?a, ?b]"
    by (simp add: add.commute)
  have i: "?b \<in> set [?a, ?b] \<and> msg_text ?c = msg_text ?b"
    by (simp add: example_message_def)
  from intelligence_union [of _ _ _ "[?a, ?b]" "[?b, ?a]" ?b ?c] p i show ?thesis
    by blast
qed


section \<open>The orchestrator\<close>

lemma stored_existing: "sessions m sid = Some s \<Longrightarrow> stored m sid = s"
  by (simp add: stored_def get_session_def)

lemma sessions_after_get: "sessions (snd (get_session m sid)) sid = Some (stored m sid)"
  by (simp add: stored_def get_session_def utcnow_def put_session_def Let_def split: option.splits)

lemma add_message_sessions:
  "sessions m sid = Some s \<Longrightarrow>
   sessions (add_message m sid a b c) sid =
     Some (s\<lparr>messages := messages s @
       [\<lparr>sender = a, msg_text = b, timestamp = c, datetime = clock m (ticks m)\<rparr>]\<rparr>)"
  by (simp add: add_message_def get_session_existing utcnow_def put_session_def)

lemma mark_scam_detected_sessions:
  "sessions m sid = Some s \<Longrightarrow>
   sessions (mark_scam_detected m sid c) sid =
     Some (s\<lparr>scam_detected := True, scam_confidence := c,
             scam_detected_at := Some (clock m (ticks m))\<rparr>)"
  by (simp add: mark_scam_detected_def get_session_existing utcnow_def put_session_def)

lemma engage_agent_sessions:
  "sessions m sid = Some s \<Longrightarrow>
   sessions (engage_agent m sid) sid =
     Some (s\<lparr>agent_engaged := True, agent_engaged_at := Some (clock m (ticks m))\<rparr>)"
  by (simp add: engage_agent_def get_session_existing utcnow_def put_session_def)

lemma should_conclude_session_sessions:
  "sessions m sid = Some s \<Longrightarrow>
   sessions (snd (should_conclude_session m sid)) sid =
     Some (s\<lparr>should_conclude := fst (should_conclude_session m sid)\<rparr>)"
  by (simp add: should_conclude_session_def get_session_existing put_session_def Let_def)

text \<open>The request after the key check.\<close>

lemma chat_endpoint_authorised:
  "authorised API_KEY k1 k2 \<Longrightarrow>
   chat_endpoint API_KEY k1 k2 rq ext m =
     (let sid = sessionId rq;
          m2 = add_message (snd (get_session m sid)) sid
                 (sender_value (in_sender (in_message rq))) (in_text (in_message rq))
                 (in_timestamp (in_message rq));
          session = stored m2 sid
      in if scam_detected session \<and> agent_engaged session then
           (let (conclude, m3) = should_conclude_session m2 sid in
            if conclude then
              \<lparr>answer = success (generate_final_response ext),
               callback_task = Some sid, store = m3\<rparr>
            else
              \<lparr>answer = success (generate_response ext), callback_task = None,
               store = update_intelligence m3 sid (extract_from_message (in_text (in_message rq)))\<rparr>)
         else if \<not> scam_detected session then
           (let (is_scam, confidence) = detect_scam ext in
            if is_scam \<and> confidence > 7 / 10 then
              \<lparr>answer = success (generate_initial_response ext), callback_task = None,
               store = engage_agent (mark_scam_detected m2 sid confidence) sid\<rparr>
            else
              \<lparr>answer = success (generate_neutral_response ext), callback_task = None,
               store = m2\<rparr>)
         else
           \<lparr>answer = success ''I'm sorry, I didn't quite understand. Could you please clarify?'',
            callback_task = None, store = m2\<rparr>)"
  unfolding chat_endpoint_def authorised_def Let_def
  by (simp split: option.splits)

lemma appended:
  "\<exists>now. sessions (add_message (snd (get_session m sid)) sid
       (sender_value (in_sender (in_message rq))) (in_text (in_message rq))
       (in_timestamp (in_message rq))) sid =
     Some ((stored m sid)\<lparr>messages := messages (stored m sid) @ [incoming rq now]\<rparr>)"
  by (rule exI [of _ "clock (snd (get_session m sid)) (ticks (snd (get_session m sid)))"])
     (simp add: add_message_sessions [OF sessions_after_get] incoming_def)

lemma example_authorised: "authorised ''key'' (Some ''key'') None"
  by (simp add: authorised_def py_or_def)

lemma example_store_new: "\<not> scam_detected (stored example_store ''s1'')"
  by (simp add: stored_def get_session_def example_store_def utcnow_def new_session_def Let_def)

text \<open>
  \<^bold>\<open>C4.\<close> A request that passes the key check, on a session in which no scam has been
  detected: if the classifier answers a scam with a confidence above 0.7, the reply is the
  initial engagement reply and the session is left detected, with that confidence, and
  engaged; otherwise the reply is the neutral one, no report is scheduled, the session is
  the one before with the incoming message appended and nothing else changed, and no other
  session changes.
\<close>

theorem detection_phase:
  assumes "authorised API_KEY k1 k2" and "\<not> scam_detected (stored m (sessionId rq))"
  shows "(fst (detect_scam ext) \<and> snd (detect_scam ext) > 7 / 10 \<longrightarrow>
            answer (chat_endpoint API_KEY k1 k2 rq ext m) = success (generate_initial_response ext) \<and>
            scam_detected (stored (store (chat_endpoint API_KEY k1 k2 rq ext m)) (sessionId rq)) \<and>
            scam_confidence (stored (store (chat_endpoint API_KEY k1 k2 rq ext m)) (sessionId rq)) =
              snd (detect_scam ext) \<and>
            agent_engaged (stored (store (chat_endpoint API_KEY k1 k2 rq ext m)) (sessionId rq))) \<and>
         (\<not> (fst (detect_scam ext) \<and> snd (detect_scam ext) > 7 / 10) \<longrightarrow>
            answer (chat_endpoint API_KEY k1 k2 rq ext m) = success (generate_neutral_response ext) \<and>
            callback_task (chat_endpoint API_KEY k1 k2 rq ext m) = None \<and>
            (\<exists>now. sessions (store (chat_endpoint API_KEY k1 k2 rq ext m)) (sessionId rq) =
               Some ((stored m (sessionId rq))
                 \<lparr>messages := messages (stored m (sessionId rq)) @ [incoming rq now]\<rparr>)) \<and>
            (\<forall>k. k \<noteq> sessionId rq \<longrightarrow>
               sessions (store (chat_endpoint API_KEY k1 k2 rq ext m)) k = sessions m k))"
proof -
  let ?sid = "sessionId rq"
  let ?m2 = "add_message (snd (get_session m ?sid)) ?sid
       (sender_value (in_sender (in_message rq))) (in_text (in_message rq))
       (in_timestamp (in_message rq))"
  obtain now where a: "sessions ?m2 ?sid =
      Some ((stored m ?sid)\<lparr>messages := messages (stored m ?sid) @ [incoming rq now]\<rparr>)"
    using appended by blast
  have s: "stored ?m2 ?sid = (stored m ?sid)\<lparr>messages := messages (stored m ?sid) @ [incoming rq now]\<rparr>"
    by (rule stored_existing [OF a])
  have u: "\<not> scam_detected (stored ?m2 ?sid)"
    using assms(2) by (simp add: s)
  have others: "\<forall>k. k \<noteq> ?sid \<longrightarrow> sessions ?m2 k = sessions m k"
    by (auto simp: add_message_def get_session_def utcnow_def put_session_def Let_def
        split: option.splits prod.splits)
  have e: "stored (engage_agent (mark_scam_detected ?m2 ?sid c) ?sid) ?sid =
      (stored m ?sid)\<lparr>messages := messages (stored m ?sid) @ [incoming rq now],
         scam_detected := True, scam_confidence := c,
         scam_detected_at := Some (clock ?m2 (ticks ?m2)),
         agent_engaged := True,
         agent_engaged_at := Some (clock (mark_scam_detected ?m2 ?sid c)
            (ticks (mark_scam_detected ?m2 ?sid c)))\<rparr>" for c
    by (rule stored_existing)
       (simp add: engage_agent_sessions [OF mark_scam_detected_sessions [OF a]])
  show ?thesis
    using a u others
    by (auto simp: chat_endpoint_authorised [OF assms(1)] Let_def e split: prod.splits)
qed


theorem detection_phase_witness:
  "authorised ''key'' (Some ''key'') None \<and>
   \<not> scam_detected (stored example_store ''s1'') \<and>
   answer (chat_endpoint ''key'' (Some ''key'') None (example_request ''Your KYC is blocked'')
      (example_answers True (85 / 100)) example_store) = success ''Oh my god, which account sir?'' \<and>
   scam_detected (stored (store (chat_endpoint ''key'' (Some ''key'') None
      (example_request ''Your KYC is blocked'') (example_answers True (85 / 100)) example_store)) ''s1'') \<and>
   scam_confidence (stored (store (chat_endpoint ''key'' (Some ''key'') None
      (example_request ''Your KYC is blocked'') (example_answers True (85 / 100)) example_store)) ''s1'') =
      85 / 100 \<and>
   agent_engaged (stored (store (chat_endpoint ''key'' (Some ''key'') None
      (example_request ''Your KYC is blocked'') (example_answers True (85 / 100)) example_store)) ''s1'') \<and>
   answer (chat_endpoint ''key'' (Some ''key'') None (example_request ''Your KYC is blocked'')
      (example_answers True (65 / 100)) example_store) = success ''Hello, who is this?'' \<and>
   (\<exists>now. sessions (store (chat_endpoint ''key'' (Some ''key'') None
      (example_request ''Your KYC is blocked'') (example_answers True (65 / 100)) example_store)) ''s1'' =
      Some ((stored example_store ''s1'')\<lparr>messages := messages (stored example_store ''s1'') @
         [incoming (example_request ''Your KYC is blocked'') now]\<rparr>)) \<and>
   answer (chat_endpoint ''key'' (Some ''key'') None (example_request ''Your KYC is blocked'')
      (example_answers False (95 / 100)) example_store) = success ''Hello, who is this?''"
proof -
  have sid_eq: "sessionId (example_request body) = ''s1''" for body
    by (simp add: example_request_def)
  note t = detection_phase [OF example_authorised, of example_store "example_request ''Your KYC is blocked''",
      unfolded sid_eq, OF example_store_new]
  show ?thesis
    using t [of "example_answers True (85 / 100)"] t [of "example_answers True (65 / 100)"]
      t [of "example_answers False (95 / 100)"] example_authorised example_store_new
    by (simp add: example_answers_def)
qed


text \<open>
  \<^bold>\<open>C10.\<close> A request that passes the key check, on a detected and engaged session for
  which \<^verbatim>\<open>should_conclude_session\<close> returns true after the message is appended: the reply
  is the final one, the report is scheduled, and the intelligence of the session, which is
  also the intelligence of the report, is what it was before the request. The extractor is
  not run on the concluding message.
\<close>

theorem concluding_turn:
  assumes "authorised API_KEY k1 k2"
    and "scam_detected (stored m (sessionId rq))"
    and "agent_engaged (stored m (sessionId rq))"
    and "fst (should_conclude_session
           (add_message m (sessionId rq) (sender_value (in_sender (in_message rq)))
              (in_text (in_message rq)) (in_timestamp (in_message rq))) (sessionId rq))"
  shows "answer (chat_endpoint API_KEY k1 k2 rq ext m) = success (generate_final_response ext) \<and>
         callback_task (chat_endpoint API_KEY k1 k2 rq ext m) = Some (sessionId rq) \<and>
         extracted_intelligence (stored (store (chat_endpoint API_KEY k1 k2 rq ext m)) (sessionId rq)) =
           extracted_intelligence (stored m (sessionId rq)) \<and>
         extractedIntelligence
           (fst (send_final_callback (store (chat_endpoint API_KEY k1 k2 rq ext m)) (sessionId rq) code)) =
           extracted_intelligence (stored m (sessionId rq))"
proof -
  let ?sid = "sessionId rq"
  let ?m2 = "add_message (snd (get_session m ?sid)) ?sid
       (sender_value (in_sender (in_message rq))) (in_text (in_message rq))
       (in_timestamp (in_message rq))"
  have ex: "sessions m ?sid = Some (stored m ?sid)"
    using assms(2) by (auto simp: stored_def get_session_def utcnow_def new_session_def Let_def
        split: option.splits)
  have g: "snd (get_session m ?sid) = m"
    by (simp add: get_session_existing [OF ex])
  obtain now where a: "sessions ?m2 ?sid =
      Some ((stored m ?sid)\<lparr>messages := messages (stored m ?sid) @ [incoming rq now]\<rparr>)"
    using appended by blast
  have s: "stored ?m2 ?sid = (stored m ?sid)\<lparr>messages := messages (stored m ?sid) @ [incoming rq now]\<rparr>"
    by (rule stored_existing [OF a])
  have c: "fst (should_conclude_session ?m2 ?sid)"
    using assms(4) by (simp add: g)
  have after: "sessions (snd (should_conclude_session ?m2 ?sid)) ?sid =
      Some ((stored m ?sid)\<lparr>messages := messages (stored m ?sid) @ [incoming rq now],
              should_conclude := True\<rparr>)"
    using should_conclude_session_sessions [OF a] c by simp
  obtain m3 where sc: "should_conclude_session ?m2 ?sid = (True, m3)"
    using c by (cases "should_conclude_session ?m2 ?sid") simp
  have out: "chat_endpoint API_KEY k1 k2 rq ext m =
      \<lparr>answer = success (generate_final_response ext), callback_task = Some ?sid,
       store = snd (should_conclude_session ?m2 ?sid)\<rparr>"
    using assms(2,3)
    by (simp add: chat_endpoint_authorised [OF assms(1)] Let_def s sc)
  show ?thesis
    by (simp add: out send_final_callback_def callback_payload_def Let_def
        stored_existing [OF after])
qed

text \<open>The witness: the concluding message names a handle that the report does not hold.\<close>

theorem concluding_turn_witness:
  "authorised ''key'' (Some ''key'') None \<and>
   scam_detected (stored (example_manager (example_session 0 7 example_handle)) ''s1'') \<and>
   agent_engaged (stored (example_manager (example_session 0 7 example_handle)) ''s1'') \<and>
   fst (should_conclude_session
          (add_message (example_manager (example_session 0 7 example_handle)) ''s1'' ''scammer''
             ''send money to fraud@ybl'' 1700000000) ''s1'') \<and>
   upi_ids (extract_from_message ''send money to fraud@ybl'') = [''fraud@ybl''] \<and>
   answer (chat_endpoint ''key'' (Some ''key'') None (example_request ''send money to fraud@ybl'')
      (example_answers True (9 / 10)) (example_manager (example_session 0 7 example_handle))) =
     success ''I will call you later.'' \<and>
   callback_task (chat_endpoint ''key'' (Some ''key'') None (example_request ''send money to fraud@ybl'')
      (example_answers True (9 / 10)) (example_manager (example_session 0 7 example_handle))) =
     Some ''s1'' \<and>
   upi_ids (extractedIntelligence (fst (send_final_callback
      (store (chat_endpoint ''key'' (Some ''key'') None (example_request ''send money to fraud@ybl'')
         (example_answers True (9 / 10)) (example_manager (example_session 0 7 example_handle))))
      ''s1'' 200))) = [''9876543210@paytm'']"
proof -
  let ?m = "example_manager (example_session 0 7 example_handle)"
  let ?rq = "example_request ''send money to fraud@ybl''"
  have st: "stored ?m ''s1'' = example_session 0 7 example_handle"
    by (rule stored_existing [OF example_lookup])
  have h2: "scam_detected (stored ?m (sessionId ?rq))"
    and h3: "agent_engaged (stored ?m (sessionId ?rq))"
    by (simp_all add: example_request_def st example_fields)
  have hv: "is_high_value_intelligence example_handle"
    by (simp add: example_handle_def is_high_value_intelligence_def empty_intelligence_def)
  have h4: "fst (should_conclude_session
          (add_message ?m ''s1'' ''scammer'' ''send money to fraud@ybl'' 1700000000) ''s1'')"
    by (simp add: should_conclude_session_def
        get_session_existing [OF add_message_sessions [OF example_lookup]]
        engagement_messages_def example_fields hv)
       (simp add: example_manager_def)
  have h4': "fst (should_conclude_session
          (add_message ?m (sessionId ?rq) (sender_value (in_sender (in_message ?rq)))
             (in_text (in_message ?rq)) (in_timestamp (in_message ?rq))) (sessionId ?rq))"
    using h4 by (simp add: example_request_def)
  have u: "upi_ids (extract_from_message ''send money to fraud@ybl'') = [''fraud@ybl'']"
    by code_simp
  have sid: "sessionId ?rq = ''s1''"
    by (simp add: example_request_def)
  have gf: "generate_final_response (example_answers True (9 / 10)) = ''I will call you later.''"
    by (simp add: example_answers_def)
  have b: "upi_ids (extracted_intelligence (example_session 0 7 example_handle)) =
      [''9876543210@paytm'']"
    by (simp add: example_fields example_handle_def empty_intelligence_def)
  note r = concluding_turn [OF example_authorised h2 h3 h4', of "example_answers True (9 / 10)" 200,
      unfolded sid st gf]
  from r b have "upi_ids (extractedIntelligence (fst (send_final_callback
      (store (chat_endpoint ''key'' (Some ''key'') None ?rq
         (example_answers True (9 / 10)) ?m)) ''s1'' 200))) = [''9876543210@paytm'']"
    by simp
  with r example_authorised h2 [unfolded sid] h3 [unfolded sid] h4 u show ?thesis
    by blast
qed

section \<open>The extractor\<close>

subsection \<open>Slices and runs\<close>

lemma slice_length: "e \<le> length s \<Longrightarrow> length (slice s i e) = e - i"
  by (simp add: slice_def)

lemma slice_nth: "i + k < e \<Longrightarrow> e \<le> length s \<Longrightarrow> slice s i e ! k = s ! (i + k)"
  by (simp add: slice_def)

lemma slice_append: "i \<le> k \<Longrightarrow> k \<le> e \<Longrightarrow> slice s i e = slice s i k @ slice s k e"
proof -
  assume a: "i \<le> k" "k \<le> e"
  have "take (e - i) (drop i s) = take (k - i) (drop i s) @ take (e - k) (drop (k - i) (drop i s))"
    using a by (metis Nat.add_diff_assoc2 add_diff_cancel_left' take_add add.commute)
  then show ?thesis using a by (simp add: slice_def)
qed

lemma slice_sublist: "sublist (slice s i e) s"
proof -
  have "s = take i s @ slice s i e @ drop (e - i) (drop i s)"
    unfolding slice_def by (metis append_take_drop_id)
  then show ?thesis unfolding sublist_def by blast
qed

lemma slice_prefix: "prefix w (drop i s) \<Longrightarrow> slice s i (i + length w) = w"
  by (auto simp: slice_def prefix_def)

lemma run_length_le: "run_length p s i \<le> length s - i"
  unfolding run_length_def by (metis length_drop length_takeWhile_le)

lemma run_length_nth: "k < run_length p s i \<Longrightarrow> p (s ! (i + k))"
proof -
  assume a: "k < run_length p s i"
  then have "takeWhile p (drop i s) ! k \<in> set (takeWhile p (drop i s))"
    by (simp add: run_length_def)
  then have "p (takeWhile p (drop i s) ! k)"
    by (rule set_takeWhileD [THEN conjunct2])
  moreover have "takeWhile p (drop i s) ! k = drop i s ! k"
    using a by (simp add: run_length_def takeWhile_nth)
  moreover have "i + k < length s"
    using a run_length_le [of p s i] by simp
  ultimately show ?thesis by simp
qed

subsection \<open>What the matcher reports\<close>

lemma ends_lit: "ends (lit w) s i = (if prefix w (drop i s) then [i + length w] else [])"
proof (induction w arbitrary: i rule: lit.induct)
  case 1
  show ?case by simp
next
  case (2 c)
  show ?case
    by (cases "i < length s") (auto simp: Cons_nth_drop_Suc [symmetric])
next
  case (3 c v va)
  show ?case
    by (cases "i < length s") (auto simp: "3.IH" Cons_nth_drop_Suc [symmetric])
qed

lemma match_at_ends: "match_at r s i = Some e \<Longrightarrow> e \<in> set (ends r s i)"
  by (auto simp: match_at_def split: list.splits)

lemma findall_from_sound:
  "x \<in> set (findall_from r s i) \<Longrightarrow>
   \<exists>j e. i \<le> j \<and> j \<le> length s \<and> match_at r s j = Some e \<and> x = slice s j e"
proof (induction r s i rule: findall_from.induct)
  case (1 r s i)
  show ?case
  proof (cases "length s < i")
    case True
    with "1.prems" show ?thesis by (simp add: findall_from.simps [of r s i])
  next
    case False
    show ?thesis
    proof (cases "match_at r s i")
      case None
      with False "1.prems" have "x \<in> set (findall_from r s (Suc i))"
        by (simp add: findall_from.simps [of r s i])
      from "1.IH"(1) [OF False None this] obtain j e' where
        "Suc i \<le> j" "j \<le> length s" "match_at r s j = Some e'" "x = slice s j e'" by blast
      then show ?thesis
        by (intro exI [of _ j] exI [of _ e']) simp
    next
      case (Some e)
      with False "1.prems" have
        "x = slice s i e \<or> x \<in> set (findall_from r s (if i < e then e else Suc i))"
        by (simp add: findall_from.simps [of r s i])
      then show ?thesis
      proof
        assume "x = slice s i e"
        with False Some show ?thesis by (intro exI [of _ i] exI [of _ e]) simp
      next
        assume "x \<in> set (findall_from r s (if i < e then e else Suc i))"
        from "1.IH"(2) [OF False Some this] obtain j e' where
          "(if i < e then e else Suc i) \<le> j" "j \<le> length s" "match_at r s j = Some e'"
          "x = slice s j e'" by blast
        then show ?thesis
          by (intro exI [of _ j] exI [of _ e']) (auto split: if_splits)
      qed
    qed
  qed
qed

lemma findall_sound:
  "x \<in> set (findall r s) \<Longrightarrow> \<exists>j e. e \<in> set (ends r s j) \<and> x = slice s j e"
  unfolding findall_def using findall_from_sound match_at_ends by blast

lemma ends_digits_9:
  "set (ends (Seq (Rep 9 9 is_digit) WordB) m k) =
     (if 9 \<le> run_length is_digit m k \<and> word_boundary m (k + 9) then {k + 9} else {})"
  by (auto simp: min_def)

lemma ends_phone_body:
  "set (ends (Seq (Cls six_to_nine) (Seq (Rep 9 9 is_digit) WordB)) m k) =
     (if k < length m \<and> six_to_nine (m ! k) \<and> 9 \<le> run_length is_digit m (Suc k) \<and>
         word_boundary m (k + 10) then {k + 10} else {})"
proof (cases "k < length m \<and> six_to_nine (m ! k)")
  case True
  then have "ends (Cls six_to_nine) m k = [Suc k]"
    by simp
  then have "ends (Seq (Cls six_to_nine) (Seq (Rep 9 9 is_digit) WordB)) m k =
      ends (Seq (Rep 9 9 is_digit) WordB) m (Suc k)"
    by (simp only: ends.simps(5) list.map concat.simps append_Nil2)
  with True show ?thesis
    by (simp only: ends_digits_9) (simp add: add.commute)
next
  case False
  then have "ends (Cls six_to_nine) m k = []"
    by auto
  then have "ends (Seq (Cls six_to_nine) (Seq (Rep 9 9 is_digit) WordB)) m k = []"
    by (simp only: ends.simps(5) list.map concat.simps)
  with False show ?thesis
    by auto
qed

lemma ends_phone_prefix:
  "set (ends (Opt phone_prefix) m j) =
     {k. k = j \<or> (prefix ''+91'' (drop j m) \<and> k = j + 3) \<or>
         (prefix ''91'' (drop j m) \<and> k = j + 2) \<or> (prefix ''0'' (drop j m) \<and> k = j + 1)}"
proof -
  have "ends (Opt phone_prefix) m j =
      ends (lit ''+91'') m j @ ends (lit ''91'') m j @ ends (lit ''0'') m j @ [j]"
    by (simp add: phone_prefix_def del: lit.simps)
  then show ?thesis
    by (simp only: ends_lit) auto
qed

lemma phone_ends:
  "e \<in> set (ends phone_pattern m j) \<longleftrightarrow>
     (\<exists>k. (k = j \<or> (prefix ''+91'' (drop j m) \<and> k = j + 3) \<or>
             (prefix ''91'' (drop j m) \<and> k = j + 2) \<or> (prefix ''0'' (drop j m) \<and> k = j + 1)) \<and>
          k < length m \<and> six_to_nine (m ! k) \<and> 9 \<le> run_length is_digit m (Suc k) \<and>
          word_boundary m (k + 10) \<and> e = k + 10)"
proof -
  have "set (ends phone_pattern m j) =
      (\<Union>k\<in>set (ends (Opt phone_prefix) m j).
         set (ends (Seq (Cls six_to_nine) (Seq (Rep 9 9 is_digit) WordB)) m k))"
    unfolding phone_pattern_def by (simp only: ends.simps(5) set_concat set_map image_image)
  then have "e \<in> set (ends phone_pattern m j) \<longleftrightarrow>
      (\<exists>k\<in>set (ends (Opt phone_prefix) m j).
         e \<in> set (ends (Seq (Cls six_to_nine) (Seq (Rep 9 9 is_digit) WordB)) m k))"
    by blast
  also have "\<dots> \<longleftrightarrow>
      (\<exists>k. (k = j \<or> (prefix ''+91'' (drop j m) \<and> k = j + 3) \<or>
             (prefix ''91'' (drop j m) \<and> k = j + 2) \<or> (prefix ''0'' (drop j m) \<and> k = j + 1)) \<and>
          k < length m \<and> six_to_nine (m ! k) \<and> 9 \<le> run_length is_digit m (Suc k) \<and>
          word_boundary m (k + 10) \<and> e = k + 10)"
    unfolding ends_phone_prefix ends_phone_body Bex_def mem_Collect_eq
    by (intro ex_cong1) (simp split: if_splits, blast)
  finally show ?thesis .
qed

lemma sub_anchored_phone_prefix:
  "sub_anchored phone_prefix q =
     (if prefix ''+91'' q then drop 3 q else if prefix ''91'' q then drop 2 q
      else if prefix ''0'' q then drop 1 q else q)"
  by (simp add: sub_anchored_def match_at_def phone_prefix_def ends_lit numeral_3_eq_3 numeral_2_eq_2
      del: lit.simps)

lemma six_to_nine_digit: "six_to_nine c \<Longrightarrow> is_digit c"
  by (simp add: six_to_nine_def is_digit_def Let_def)

lemma is_digit_word: "is_digit c \<Longrightarrow> is_word c"
  by (simp add: is_word_def is_digit_def Let_def)

lemma six_to_nine_not_prefix: "six_to_nine c \<Longrightarrow> c \<noteq> CHR ''+'' \<and> c \<noteq> CHR ''0''"
  by (auto simp: six_to_nine_def Let_def)

text \<open>The digits of a match of the phone pattern.\<close>

lemma phone_body_digits:
  assumes "k < length m" "six_to_nine (m ! k)" "9 \<le> run_length is_digit m (Suc k)"
    and "word_boundary m (k + 10)"
  shows "k + 10 \<le> length m"
    and "\<forall>i<10. is_digit (m ! (k + i))"
    and "k + 10 = length m \<or> \<not> is_word (m ! (k + 10))"
proof -
  show len: "k + 10 \<le> length m"
    using assms(3) run_length_le [of is_digit m "Suc k"] by simp
  show dig: "\<forall>i<10. is_digit (m ! (k + i))"
  proof (intro allI impI)
    fix i :: nat
    assume i: "i < 10"
    show "is_digit (m ! (k + i))"
    proof (cases i)
      case 0
      with assms(2) show ?thesis by (simp add: six_to_nine_digit)
    next
      case (Suc n)
      with i assms(3) have "n < run_length is_digit m (Suc k)" by simp
      from run_length_nth [OF this] Suc show ?thesis by simp
    qed
  qed
  from dig [rule_format, of 9] have "is_digit (m ! (k + 9))" by simp
  then have w: "is_word (m ! (k + 9))" by (rule is_digit_word)
  have w': "is_word (m ! (9 + k))" using w by (simp only: add.commute [of 9 k])
  from assms(4) len w w' show "k + 10 = length m \<or> \<not> is_word (m ! (k + 10))"
    by (auto simp: word_boundary_def)
qed

lemma cleaned_phone:
  assumes "pre \<in> {[], ''+91'', ''91'', ''0''}" and "length d = 10" and "six_to_nine (d ! 0)"
    and "length (sub_anchored phone_prefix (pre @ d)) = 10"
  shows "sub_anchored phone_prefix (pre @ d) = d"
proof -
  obtain c d' where d: "d = c # d'"
    using assms(2) by (cases d) auto
  with assms(3) have c: "c \<noteq> CHR ''+''" "c \<noteq> CHR ''0''"
    using six_to_nine_not_prefix by auto
  from assms(1) consider "pre = []" | "pre = ''+91''" | "pre = ''91''" | "pre = ''0''"
    by auto
  then show ?thesis
  proof cases
    case 1
    with assms(2,4) d c show ?thesis
      by (auto simp: sub_anchored_phone_prefix split: if_splits)
  next
    case 2
    then show ?thesis by (simp add: sub_anchored_phone_prefix)
  next
    case 3
    then show ?thesis by (simp add: sub_anchored_phone_prefix)
  next
    case 4
    then show ?thesis by (simp add: sub_anchored_phone_prefix)
  qed
qed

lemma phone_match_parts:
  assumes "e \<in> set (ends phone_pattern m j)"
  obtains k where "k < length m" "six_to_nine (m ! k)" "9 \<le> run_length is_digit m (Suc k)"
    "word_boundary m (k + 10)" "e = k + 10" "j \<le> k"
    "slice m j k \<in> {[], ''+91'', ''91'', ''0''}"
proof -
  from assms obtain k where
    st: "k = j \<or> (prefix ''+91'' (drop j m) \<and> k = j + 3) \<or>
         (prefix ''91'' (drop j m) \<and> k = j + 2) \<or> (prefix ''0'' (drop j m) \<and> k = j + 1)"
    and b: "k < length m" "six_to_nine (m ! k)" "9 \<le> run_length is_digit m (Suc k)"
      "word_boundary m (k + 10)" "e = k + 10"
    unfolding phone_ends by blast
  from st have "j \<le> k" by auto
  moreover from st have "slice m j k \<in> {[], ''+91'', ''91'', ''0''}"
    using slice_prefix [of "''+91''" j m] slice_prefix [of "''91''" j m]
      slice_prefix [of "''0''" j m]
    by (auto simp: slice_def)
  ultimately show thesis using b that by blast
qed

lemma phone_numbers_extract:
  "phone_numbers (extract_from_message m) =
     remdups (filter (\<lambda>clean. length clean = 10)
       (map (sub_anchored phone_prefix) (findall phone_pattern m)))"
  unfolding extract_from_message_def Let_def by (rule intelligence.select_convs)

lemma bank_accounts_extract:
  "bank_accounts (extract_from_message m) =
     remdups (filter (\<lambda>acc. acc \<notin> set (filter (\<lambda>clean. length clean = 10)
         (map (sub_anchored phone_prefix) (findall phone_pattern m))) \<and> 11 \<le> length acc)
       (findall bank_account_pattern m))"
  unfolding extract_from_message_def Let_def by (rule intelligence.select_convs)

lemma upi_ids_extract:
  "upi_ids (extract_from_message m) =
     remdups (filter (\<lambda>upi. list_ex (\<lambda>bank. sublist bank (lower upi)) upi_banks)
       (findall upi_pattern m))"
  unfolding extract_from_message_def Let_def by (rule intelligence.select_convs)

lemma phone_candidate_sound:
  assumes "p \<in> set (phone_numbers (extract_from_message m))"
  shows "\<exists>k. k + 10 \<le> length m \<and> p = slice m k (k + 10) \<and> six_to_nine (m ! k) \<and>
             (\<forall>i<10. is_digit (m ! (k + i))) \<and>
             (k + 10 = length m \<or> \<not> is_word (m ! (k + 10)))"
proof -
  from assms have "p \<in> set (filter (\<lambda>clean. length clean = 10)
      (map (sub_anchored phone_prefix) (findall phone_pattern m)))"
    by (simp only: phone_numbers_extract set_remdups)
  then obtain q where q: "q \<in> set (findall phone_pattern m)"
    and p: "p = sub_anchored phone_prefix q" and l: "length p = 10"
    by auto
  from findall_sound [OF q] obtain j e where
    e: "e \<in> set (ends phone_pattern m j)" and qs: "q = slice m j e" by blast
  from e obtain k where k: "k < length m" "six_to_nine (m ! k)"
      "9 \<le> run_length is_digit m (Suc k)" "word_boundary m (k + 10)" "e = k + 10" "j \<le> k"
      "slice m j k \<in> {[], ''+91'', ''91'', ''0''}"
    by (rule phone_match_parts)
  note d = phone_body_digits [OF k(1-4)]
  have "slice m j (k + 10) = slice m j k @ slice m k (k + 10)"
    by (rule slice_append) (use k(6) in simp_all)
  with qs k(5) have split: "q = slice m j k @ slice m k (k + 10)"
    by (simp only:)
  have ld: "length (slice m k (k + 10)) = 10"
    using d(1) by (simp add: slice_length)
  have "slice m k (k + 10) ! 0 = m ! (k + 0)"
    by (rule slice_nth) (use d(1) in simp_all)
  with k(2) have hd: "six_to_nine (slice m k (k + 10) ! 0)"
    by simp
  have "length (sub_anchored phone_prefix (slice m j k @ slice m k (k + 10))) = 10"
    using l unfolding p split .
  from cleaned_phone [OF k(7) ld hd this] have "p = slice m k (k + 10)"
    unfolding p split .
  with d k(2) show ?thesis
    by (intro exI [of _ k]) simp
qed

lemma set_ends:
  "set (ends Eps s i) = {i}"
  "set (ends (Chr c) s i) = (if i < length s \<and> s ! i = c then {Suc i} else {})"
  "set (ends (Cls p) s i) = (if i < length s \<and> p (s ! i) then {Suc i} else {})"
  "set (ends WordB s i) = (if word_boundary s i then {i} else {})"
  "set (ends (Seq a b) s i) = (\<Union>k\<in>set (ends a s i). set (ends b s k))"
  "set (ends (Alt a b) s i) = set (ends a s i) \<union> set (ends b s i)"
  "set (ends (Opt a) s i) = insert i (set (ends a s i))"
  "set (ends (Plus p) s i) = {e. i < e \<and> e \<le> i + run_length p s i}"
  "set (ends (Rep lo hi p) s i) = {e. i + lo \<le> e \<and> e \<le> i + min hi (run_length p s i)}"
  by auto

lemma upi_ends:
  "e \<in> set (ends upi_pattern m j) \<longleftrightarrow>
     word_boundary m j \<and>
     (\<exists>a. j < a \<and> a \<le> j + run_length upi_local m j \<and> a < length m \<and> m ! a = CHR ''@'' \<and>
          Suc a < e \<and> e \<le> Suc a + run_length upi_domain m (Suc a) \<and> word_boundary m e)"
  unfolding upi_pattern_def
  by (simp only: set_ends) (auto split: if_splits)

lemma slice_nth_length: "n < length (slice s i e) \<Longrightarrow> slice s i e ! n = s ! (i + n)"
proof -
  assume n: "n < length (slice s i e)"
  then have "n < length s - i" by (simp add: slice_def)
  then have "i \<le> length s" by arith
  with n show ?thesis by (simp add: slice_def)
qed

lemma run_length_end: "i \<le> length s \<Longrightarrow> i + run_length p s i \<le> length s"
  using run_length_le [of p s i] by simp

lemma slice_list_all:
  assumes "e \<le> i + run_length p s i"
  shows "list_all p (slice s i e)"
proof -
  have "\<forall>n<length (slice s i e). p (slice s i e ! n)"
  proof (intro allI impI)
    fix n
    assume n: "n < length (slice s i e)"
    then have "n < e - i" by (simp add: slice_def)
    then have "n < run_length p s i" using assms by simp
    then have "p (s ! (i + n))" by (rule run_length_nth)
    with slice_nth_length [OF n] show "p (slice s i e ! n)" by simp
  qed
  then show ?thesis by (simp add: list_all_length)
qed

lemma upi_token_shape:
  assumes "u \<in> set (findall upi_pattern m)"
  shows "\<exists>l d. u = l @ ''@'' @ d \<and> l \<noteq> [] \<and> d \<noteq> [] \<and>
           list_all upi_local l \<and> list_all upi_domain d \<and> sublist u m"
proof -
  from findall_sound [OF assms] obtain j e where
    e: "e \<in> set (ends upi_pattern m j)" and u: "u = slice m j e" by blast
  from e obtain a where a: "j < a" "a \<le> j + run_length upi_local m j" "a < length m"
      "m ! a = CHR ''@''" "Suc a < e" "e \<le> Suc a + run_length upi_domain m (Suc a)"
    unfolding upi_ends by blast
  have le: "e \<le> length m"
    using a(3,6) run_length_end [of "Suc a" m upi_domain] by simp
  have "slice m j e = slice m j a @ slice m a e"
    by (rule slice_append) (use a in simp_all)
  moreover have "slice m a e = slice m a (Suc a) @ slice m (Suc a) e"
    by (rule slice_append) (use a in simp_all)
  moreover have "slice m a (Suc a) = ''@''"
    using a(3,4) by (simp add: slice_def take_Suc_conv_app_nth hd_drop_conv_nth take_Suc)
  ultimately have split: "u = slice m j a @ ''@'' @ slice m (Suc a) e"
    using u by simp
  have l: "list_all upi_local (slice m j a)"
    by (rule slice_list_all) (use a in simp_all)
  have d: "list_all upi_domain (slice m (Suc a) e)"
    by (rule slice_list_all) (use a in simp_all)
  have ne: "slice m j a \<noteq> []" "slice m (Suc a) e \<noteq> []"
    using a le slice_length [of a m j] slice_length [of e m "Suc a"] by auto
  have "sublist u m"
    unfolding u by (rule slice_sublist)
  with split l d ne show ?thesis by blast
qed

lemma domain_part_suffix: "suffix (domain_part tok) tok"
proof -
  have "suffix (drop 1 (dropWhile (\<lambda>c. c \<noteq> CHR ''@'') tok)) (dropWhile (\<lambda>c. c \<noteq> CHR ''@'') tok)"
    by (rule suffix_drop)
  moreover have "suffix (dropWhile (\<lambda>c. c \<noteq> CHR ''@'') tok) tok"
    by (rule suffix_dropWhile)
  ultimately show ?thesis
    unfolding domain_part_def by (rule suffix_order.trans)
qed

lemma domain_allow_listed_retained:
  assumes "domain_allow_listed tok"
  shows "list_ex (\<lambda>bank. sublist bank (lower tok)) upi_banks"
proof -
  from assms obtain bank where b: "bank \<in> set upi_banks"
    "sublist bank (lower (domain_part tok))"
    by (auto simp: domain_allow_listed_def list_ex_iff)
  from domain_part_suffix [of tok] obtain zs where "tok = zs @ domain_part tok"
    by (auto simp: suffix_def)
  then have "lower tok = lower zs @ lower (domain_part tok)"
    by (metis lower_def map_append)
  then have "sublist (lower (domain_part tok)) (lower tok)"
    by (metis sublist_appendI append_Nil2)
  with b(2) have "sublist bank (lower tok)"
    by (rule sublist_order.order.trans)
  with b(1) show ?thesis by (auto simp: list_ex_iff)
qed

text \<open>
  \<^bold>\<open>C6.\<close> The filter on handle tokens does not look at the domain part alone: a token
  found by the handle pattern is emitted exactly when its lower-cased text, local part
  and domain part together, contains one of the eight provider names. Every token found
  has the shape local part, \<^verbatim>\<open>@\<close>, domain part (both non-empty, the local part of word
  characters, dots and hyphens, the domain part of word characters and hyphens) and
  occurs in the text. A found token whose domain part contains a provider name is
  emitted, and so is \<^verbatim>\<open>9876543210@paytm\<close>.
\<close>

theorem upi_filter:
  "(u \<in> set (upi_ids (extract_from_message m)) \<longleftrightarrow>
      u \<in> set (findall upi_pattern m) \<and> (\<exists>bank\<in>set upi_banks. sublist bank (lower u))) \<and>
   (u \<in> set (findall upi_pattern m) \<longrightarrow>
      (\<exists>l d. u = l @ ''@'' @ d \<and> l \<noteq> [] \<and> d \<noteq> [] \<and>
         list_all upi_local l \<and> list_all upi_domain d \<and> sublist u m)) \<and>
   (u \<in> set (findall upi_pattern m) \<and> domain_allow_listed u \<longrightarrow>
      u \<in> set (upi_ids (extract_from_message m))) \<and>
   upi_ids (extract_from_message ''9876543210@paytm'') = [''9876543210@paytm'']"
proof (intro conjI impI)
  show f: "u \<in> set (upi_ids (extract_from_message m)) \<longleftrightarrow>
      u \<in> set (findall upi_pattern m) \<and> (\<exists>bank\<in>set upi_banks. sublist bank (lower u))"
    by (simp add: upi_ids_extract list_ex_iff)
  show "upi_ids (extract_from_message ''9876543210@paytm'') = [''9876543210@paytm'']"
    by code_simp
  show "\<exists>l d. u = l @ ''@'' @ d \<and> l \<noteq> [] \<and> d \<noteq> [] \<and>
         list_all upi_local l \<and> list_all upi_domain d \<and> sublist u m"
    if "u \<in> set (findall upi_pattern m)"
    using that by (rule upi_token_shape)
  show "u \<in> set (upi_ids (extract_from_message m))"
    if "u \<in> set (findall upi_pattern m) \<and> domain_allow_listed u"
    using that domain_allow_listed_retained [of u] by (simp add: f list_ex_iff)
qed

theorem upi_filter_witness:
  "''9876543210@paytm'' \<in> set (findall upi_pattern ''pay 9876543210@paytm today'') \<and>
   domain_allow_listed ''9876543210@paytm'' \<and>
   ''9876543210@paytm'' \<in> set (upi_ids (extract_from_message ''pay 9876543210@paytm today'')) \<and>
   (\<exists>l d. ''9876543210@paytm'' = l @ ''@'' @ d \<and> l \<noteq> [] \<and> d \<noteq> [] \<and>
      list_all upi_local l \<and> list_all upi_domain d \<and>
      sublist ''9876543210@paytm'' ''pay 9876543210@paytm today'')"
proof -
  have a: "''9876543210@paytm'' \<in> set (findall upi_pattern ''pay 9876543210@paytm today'')"
    by code_simp
  have b: "domain_allow_listed ''9876543210@paytm''"
    by code_simp
  from upi_filter [of "''9876543210@paytm''" "''pay 9876543210@paytm today''"] a b show ?thesis
    by blast
qed

text \<open>The counterexample to the reading by domain part: \<^verbatim>\<open>paytm.care@gmail\<close> is emitted though
  its domain part \<^verbatim>\<open>gmail\<close> contains none of the provider names.\<close>

theorem upi_filter_counterexample:
  "''paytm.care@gmail'' \<in> set (findall upi_pattern ''write to paytm.care@gmail'') \<and>
   domain_part ''paytm.care@gmail'' = ''gmail'' \<and>
   \<not> domain_allow_listed ''paytm.care@gmail'' \<and>
   ''paytm.care@gmail'' \<in> set (upi_ids (extract_from_message ''write to paytm.care@gmail''))"
  by code_simp

lemma run_length_ge:
  assumes "i + n \<le> length s" and "\<And>k. k < n \<Longrightarrow> p (s ! (i + k))"
  shows "n \<le> run_length p s i"
  unfolding run_length_def
proof (rule length_takeWhile_less_P_nth)
  show "n \<le> length (drop i s)" using assms(1) by simp
  show "p (drop i s ! k)" if "k < n" for k
    using assms that by simp
qed

lemma findall_from_complete:
  "ends r s j \<noteq> [] \<Longrightarrow> i \<le> j \<Longrightarrow> j \<le> length s \<Longrightarrow>
   \<exists>j' e'. j' \<le> j \<and> match_at r s j' = Some e' \<and>
     slice s j' e' \<in> set (findall_from r s i) \<and> (j' = j \<or> j < e')"
proof (induction r s i rule: findall_from.induct)
  case (1 r s i)
  from "1.prems" have nl: "\<not> length s < i" by simp
  show ?case
  proof (cases "match_at r s i")
    case None
    with "1.prems"(1) have "i \<noteq> j" by (auto simp: match_at_def split: list.splits)
    with "1.prems"(2) have "Suc i \<le> j" by simp
    from "1.IH"(1) [OF nl None "1.prems"(1) this "1.prems"(3)] obtain j' e' where
      "j' \<le> j" "match_at r s j' = Some e'" "slice s j' e' \<in> set (findall_from r s (Suc i))"
      "j' = j \<or> j < e'" by blast
    moreover have "findall_from r s i = findall_from r s (Suc i)"
      using nl None by (simp add: findall_from.simps [of r s i])
    ultimately show ?thesis by auto
  next
    case (Some e)
    have unfold: "findall_from r s i =
        slice s i e # findall_from r s (if i < e then e else Suc i)"
      using nl Some by (simp add: findall_from.simps [of r s i])
    show ?thesis
    proof (cases "i = j \<or> j < e")
      case True
      with Some "1.prems"(2) unfold show ?thesis
        by (intro exI [of _ i] exI [of _ e]) auto
    next
      case False
      with "1.prems"(2) have "(if i < e then e else Suc i) \<le> j" by auto
      from "1.IH"(2) [OF nl Some "1.prems"(1) this "1.prems"(3)] obtain j' e' where
        "j' \<le> j" "match_at r s j' = Some e'"
        "slice s j' e' \<in> set (findall_from r s (if i < e then e else Suc i))"
        "j' = j \<or> j < e'" by blast
      with unfold show ?thesis by auto
    qed
  qed
qed

lemma findall_complete:
  assumes "e \<in> set (ends r s j)" and "j \<le> length s"
  shows "\<exists>j' e'. j' \<le> j \<and> e' \<in> set (ends r s j') \<and> slice s j' e' \<in> set (findall r s) \<and>
           (j' = j \<or> j < e')"
proof -
  from assms(1) have "ends r s j \<noteq> []" by auto
  from findall_from_complete [OF this _ assms(2), of 0] match_at_ends show ?thesis
    unfolding findall_def by blast
qed

lemma phone_at_digits:
  assumes "phone_at m k" and "i < 10"
  shows "is_digit (m ! (k + i))"
proof -
  from assms(1) have le: "k + 10 \<le> length m" and all: "list_all is_digit (slice m k (k + 10))"
    by (simp_all add: phone_at_def)
  from le have len: "length (slice m k (k + 10)) = 10" by (simp add: slice_length)
  with all assms(2) have "is_digit (slice m k (k + 10) ! i)"
    by (simp add: list_all_length)
  moreover have "slice m k (k + 10) ! i = m ! (k + i)"
    by (rule slice_nth_length) (use len assms(2) in simp)
  ultimately show ?thesis by simp
qed

lemma phone_at_body:
  assumes "phone_at m k"
  shows "k < length m" "six_to_nine (m ! k)" "9 \<le> run_length is_digit m (Suc k)"
    "word_boundary m (k + 10)"
proof -
  from assms have le: "k + 10 \<le> length m" and six: "six_to_nine (m ! k)"
    and stop: "k + 10 = length m \<or> \<not> is_word (m ! (k + 10))"
    by (simp_all add: phone_at_def)
  from le show "k < length m" by simp
  from six show "six_to_nine (m ! k)" .
  show "9 \<le> run_length is_digit m (Suc k)"
  proof (rule run_length_ge)
    show "Suc k + 9 \<le> length m" using le by simp
    show "is_digit (m ! (Suc k + i))" if "i < 9" for i
      using phone_at_digits [OF assms, of "Suc i"] that by simp
  qed
  from phone_at_digits [OF assms, of 9] have "is_digit (m ! (k + 9))"
    by simp
  then have w: "is_word (m ! (k + 9))" by (rule is_digit_word)
  have w': "is_word (m ! (9 + k))" using w by (simp only: add.commute [of 9 k])
  from le stop w w' show "word_boundary m (k + 10)"
    unfolding word_boundary_def by auto
qed

lemma phone_at_match: "phone_at m k \<Longrightarrow> k + 10 \<in> set (ends phone_pattern m k)"
  unfolding phone_ends using phone_at_body [of m k] by blast

lemma slice_eq_prefix:
  assumes "slice m j k = w" and "k = j + length w"
  shows "prefix w (drop j m)"
proof -
  from assms have "take (length w) (drop j m) = w" by (simp add: slice_def)
  then show ?thesis by (metis take_is_prefix)
qed

lemma phone_at_prefixed_match:
  assumes "phone_at m k" and "preceded_by_prefix m k"
  shows "\<exists>j<k. k + 10 \<in> set (ends phone_pattern m j)"
proof -
  note b = phone_at_body [OF assms(1)]
  from assms(2) consider "3 \<le> k" "slice m (k - 3) k = ''+91''"
    | "2 \<le> k" "slice m (k - 2) k = ''91''" | "1 \<le> k" "slice m (k - 1) k = ''0''"
    unfolding preceded_by_prefix_def by blast
  then show ?thesis
  proof cases
    case 1
    then have "prefix ''+91'' (drop (k - 3) m)" by (intro slice_eq_prefix [of m _ k]) simp_all
    with 1(1) b have "k + 10 \<in> set (ends phone_pattern m (k - 3))"
      unfolding phone_ends by (intro exI [of _ k]) auto
    with 1(1) show ?thesis by (intro exI [of _ "k - 3"]) simp
  next
    case 2
    then have "prefix ''91'' (drop (k - 2) m)" by (intro slice_eq_prefix [of m _ k]) simp_all
    with 2(1) b have "k + 10 \<in> set (ends phone_pattern m (k - 2))"
      unfolding phone_ends by (intro exI [of _ k]) auto
    with 2(1) show ?thesis by (intro exI [of _ "k - 2"]) simp
  next
    case 3
    then have "prefix ''0'' (drop (k - 1) m)" by (intro slice_eq_prefix [of m _ k]) simp_all
    with 3(1) b have "k + 10 \<in> set (ends phone_pattern m (k - 1))"
      unfolding phone_ends by (intro exI [of _ k]) auto
    with 3(1) show ?thesis by (intro exI [of _ "k - 1"]) simp
  qed
qed

lemma prefix_interior_word:
  assumes "pre \<in> {[], ''+91'', ''91'', ''0''}" and "0 < n" and "n < length pre"
  shows "is_word (pre ! n)"
proof -
  have w: "is_word CHR ''9''" "is_word CHR ''1''"
    by (simp_all add: is_word_def)
  from assms have "(pre = ''+91'' \<and> (n = 1 \<or> n = 2)) \<or> (pre = ''91'' \<and> n = 1)"
    by (auto simp: less_Suc_eq)
  then show ?thesis
    using w by auto
qed

lemma phone_match_interior:
  assumes "e \<in> set (ends phone_pattern m j)"
  shows "e \<le> length m" and "j < e" and "\<And>i. j < i \<Longrightarrow> i < e \<Longrightarrow> is_word (m ! i)"
    and "e = length m \<or> \<not> is_word (m ! e)"
proof -
  from assms obtain k where k: "k < length m" "six_to_nine (m ! k)"
      "9 \<le> run_length is_digit m (Suc k)" "word_boundary m (k + 10)" "e = k + 10" "j \<le> k"
      "slice m j k \<in> {[], ''+91'', ''91'', ''0''}"
    by (rule phone_match_parts)
  note d = phone_body_digits [OF k(1-4)]
  from d(1) k(5) show "e \<le> length m" by simp
  from k(5,6) show "j < e" by simp
  from d(3) k(5) show "e = length m \<or> \<not> is_word (m ! e)" by simp
  show "is_word (m ! i)" if i: "j < i" "i < e" for i
  proof (cases "k \<le> i")
    case True
    with i(2) k(5) have "i - k < 10" by simp
    with d(2) have "is_digit (m ! (k + (i - k)))" by blast
    with True show ?thesis by (simp add: is_digit_word)
  next
    case False
    have len: "length (slice m j k) = k - j"
      using k(1) by (simp add: slice_length)
    with False i(1) have n: "0 < i - j" "i - j < length (slice m j k)" by simp_all
    from prefix_interior_word [OF k(7) n] have "is_word (slice m j k ! (i - j))" .
    moreover have "slice m j k ! (i - j) = m ! (j + (i - j))"
      by (rule slice_nth_length) (rule n(2))
    ultimately show ?thesis using i(1) by simp
  qed
qed

text \<open>Two matches of the phone pattern that overlap end at the same position.\<close>

lemma phone_matches_same_end:
  assumes "e' \<in> set (ends phone_pattern m j')" and "e \<in> set (ends phone_pattern m j)"
    and "j' \<le> j" and "j < e'"
  shows "e' = e"
proof (rule ccontr)
  assume ne: "e' \<noteq> e"
  note a = phone_match_interior [OF assms(1)]
  note b = phone_match_interior [OF assms(2)]
  show False
  proof (cases "e' < e")
    case True
    with assms(4) have "is_word (m ! e')" by (intro b(3))
    moreover from True b(1) have "e' \<noteq> length m" by simp
    ultimately show False using a(4) by simp
  next
    case False
    with ne have lt: "e < e'" by simp
    from assms(3) b(2) have "j' < e" by simp
    with lt have "is_word (m ! e)" by (intro a(3))
    moreover from lt a(1) have "e \<noteq> length m" by simp
    ultimately show False using b(4) by simp
  qed
qed

lemma cleaned_phone_kept:
  assumes "pre \<in> {[], ''+91'', ''91'', ''0''}" and "length d = 10" and "six_to_nine (d ! 0)"
    and "pre \<noteq> [] \<or> \<not> prefix ''91'' d"
  shows "sub_anchored phone_prefix (pre @ d) = d"
proof -
  obtain c d' where d: "d = c # d'"
    using assms(2) by (cases d) auto
  with assms(3) have c: "c \<noteq> CHR ''+''" "c \<noteq> CHR ''0''"
    using six_to_nine_not_prefix by auto
  from assms(1) consider "pre = []" | "pre = ''+91''" | "pre = ''91''" | "pre = ''0''"
    by auto
  then show ?thesis
  proof cases
    case 1
    with assms(4) d c show ?thesis
      by (auto simp: sub_anchored_phone_prefix)
  next
    case 2
    then show ?thesis by (simp add: sub_anchored_phone_prefix)
  next
    case 3
    then show ?thesis by (simp add: sub_anchored_phone_prefix)
  next
    case 4
    then show ?thesis by (simp add: sub_anchored_phone_prefix)
  qed
qed

lemma phone_at_intro:
  assumes "k + 10 \<le> length m" "six_to_nine (m ! k)" "\<forall>i<10. is_digit (m ! (k + i))"
    "k + 10 = length m \<or> \<not> is_word (m ! (k + 10))"
  shows "phone_at m k"
proof -
  have "\<forall>n<length (slice m k (k + 10)). is_digit (slice m k (k + 10) ! n)"
  proof (intro allI impI)
    fix n
    assume n: "n < length (slice m k (k + 10))"
    then have "n < 10" using assms(1) by (simp add: slice_length)
    with assms(3) have "is_digit (m ! (k + n))" by blast
    with slice_nth_length [OF n] show "is_digit (slice m k (k + 10) ! n)" by simp
  qed
  then have "list_all is_digit (slice m k (k + 10))" by (simp add: list_all_length)
  with assms show ?thesis by (simp add: phone_at_def)
qed

lemma phone_candidate_found:
  assumes "p \<in> set (phone_numbers (extract_from_message m))"
  shows "\<exists>k. phone_at m k \<and> p = slice m k (k + 10)"
proof -
  from phone_candidate_sound [OF assms] obtain k where
    "k + 10 \<le> length m" "p = slice m k (k + 10)" "six_to_nine (m ! k)"
    "\<forall>i<10. is_digit (m ! (k + i))" "k + 10 = length m \<or> \<not> is_word (m ! (k + 10))"
    by blast
  with phone_at_intro [of k m] show ?thesis by blast
qed

lemma phone_candidate_complete:
  assumes "phone_at m k"
    and "preceded_by_prefix m k \<or> \<not> prefix ''91'' (slice m k (k + 10))"
  shows "slice m k (k + 10) \<in> set (phone_numbers (extract_from_message m))"
proof -
  let ?p = "slice m k (k + 10)"
  from assms(1) have le: "k + 10 \<le> length m" and six: "six_to_nine (m ! k)"
    by (simp_all add: phone_at_def)
  have lp: "length ?p = 10" using le by (simp add: slice_length)
  have "?p ! 0 = m ! (k + 0)"
    by (rule slice_nth_length) (simp add: lp)
  with six have hd: "six_to_nine (?p ! 0)" by simp
  obtain j0 where j0: "j0 \<le> k" "k + 10 \<in> set (ends phone_pattern m j0)"
    "j0 < k \<or> \<not> prefix ''91'' ?p"
  proof (cases "preceded_by_prefix m k")
    case True
    from phone_at_prefixed_match [OF assms(1) True] obtain j where
      "j < k" "k + 10 \<in> set (ends phone_pattern m j)" by blast
    then show ?thesis by (intro that [of j]) simp_all
  next
    case False
    with assms(2) have "\<not> prefix ''91'' ?p" by simp
    with phone_at_match [OF assms(1)] show ?thesis by (intro that [of k]) simp_all
  qed
  from j0(1) le have "j0 \<le> length m" by simp
  from findall_complete [OF j0(2) this] obtain j' e' where
    r: "j' \<le> j0" "e' \<in> set (ends phone_pattern m j')"
      "slice m j' e' \<in> set (findall phone_pattern m)" "j' = j0 \<or> j0 < e'"
    by blast
  from r(4) phone_match_interior(2) [OF r(2)] have "j0 < e'" by auto
  from phone_matches_same_end [OF r(2) j0(2) r(1) this] have e': "e' = k + 10" .
  from r(2) obtain k' where k': "k' < length m" "e' = k' + 10" "j' \<le> k'"
      "slice m j' k' \<in> {[], ''+91'', ''91'', ''0''}"
    by (rule phone_match_parts)
  from k'(2) e' have kk: "k' = k" by simp
  have pre: "slice m j' k \<in> {[], ''+91'', ''91'', ''0''}"
    using k'(4) unfolding kk .
  have split: "slice m j' (k + 10) = slice m j' k @ ?p"
    by (rule slice_append) (use k'(3) kk in simp_all)
  have "length (slice m j' k) = k - j'"
    using le by (simp add: slice_length)
  with j0(3) r(1) have "slice m j' k \<noteq> [] \<or> \<not> prefix ''91'' ?p"
    by auto
  from cleaned_phone_kept [OF pre lp hd this] have
    "sub_anchored phone_prefix (slice m j' (k + 10)) = ?p"
    unfolding split .
  moreover from r(3) have "slice m j' (k + 10) \<in> set (findall phone_pattern m)"
    unfolding e' .
  ultimately have "?p \<in> sub_anchored phone_prefix ` set (findall phone_pattern m)"
    by (metis imageI)
  with lp show ?thesis
    by (simp add: phone_numbers_extract)
qed

text \<open>
  \<^bold>\<open>C7.\<close> The phone-number candidates are the matches of the phone pattern with a leading
  \<^verbatim>\<open>+91\<close>, \<^verbatim>\<open>91\<close> or \<^verbatim>\<open>0\<close> stripped, kept when exactly 10 characters remain. Every
  candidate is a phone number standing in the text: ten digits, the first 6 to 9, followed
  by the end of the text or a non-word character. Conversely every phone number standing
  in the text is a candidate when it is directly preceded by one of the three prefixes or
  does not itself begin with 91. The pattern allows no space inside a number:
  \<^verbatim>\<open>+919876543210\<close> yields \<^verbatim>\<open>9876543210\<close>.
\<close>

theorem phone_candidates:
  "(p \<in> set (phone_numbers (extract_from_message m)) \<longrightarrow>
      (\<exists>k. phone_at m k \<and> p = slice m k (k + 10))) \<and>
   (phone_at m k \<and> (preceded_by_prefix m k \<or> \<not> prefix ''91'' (slice m k (k + 10))) \<longrightarrow>
      slice m k (k + 10) \<in> set (phone_numbers (extract_from_message m))) \<and>
   phone_numbers (extract_from_message m) =
     remdups (filter (\<lambda>clean. length clean = 10)
       (map (sub_anchored phone_prefix) (findall phone_pattern m))) \<and>
   phone_numbers (extract_from_message ''+919876543210'') = [''9876543210'']"
proof (intro conjI impI)
  show "phone_numbers (extract_from_message ''+919876543210'') = [''9876543210'']"
    by code_simp
  show "\<exists>k. phone_at m k \<and> p = slice m k (k + 10)"
    if "p \<in> set (phone_numbers (extract_from_message m))"
    using that by (rule phone_candidate_found)
  show "slice m k (k + 10) \<in> set (phone_numbers (extract_from_message m))"
    if "phone_at m k \<and> (preceded_by_prefix m k \<or> \<not> prefix ''91'' (slice m k (k + 10)))"
    using that phone_candidate_complete [of m k] by blast
qed (rule phone_numbers_extract)

theorem phone_candidates_witness:
  "phone_at ''ring +919198765432 now'' 8 \<and>
   preceded_by_prefix ''ring +919198765432 now'' 8 \<and>
   slice ''ring +919198765432 now'' 8 (8 + 10) = ''9198765432'' \<and>
   ''9198765432'' \<in> set (phone_numbers (extract_from_message ''ring +919198765432 now'')) \<and>
   (\<exists>k. phone_at ''ring +919198765432 now'' k \<and>
        ''9198765432'' = slice ''ring +919198765432 now'' k (k + 10))"
proof -
  have a: "phone_at ''ring +919198765432 now'' 8"
    by code_simp
  have b: "preceded_by_prefix ''ring +919198765432 now'' 8"
    by code_simp
  have c: "slice ''ring +919198765432 now'' 8 (8 + 10) = ''9198765432''"
    by code_simp
  from phone_candidates [of "''9198765432''" "''ring +919198765432 now''" 8] a b c show ?thesis
    by metis
qed

text \<open>The counterexample to the scenario with spaces: \<^verbatim>\<open>+91 98765 43210\<close> yields no
  phone-number candidate at all.\<close>

theorem phone_candidates_counterexample:
  "''9876543210'' \<notin> set (phone_numbers (extract_from_message ''+91 98765 43210'')) \<and>
   phone_numbers (extract_from_message ''+91 98765 43210'') = []"
  by code_simp

lemma cleaned_length:
  "c \<in> set (filter (\<lambda>clean. length clean = 10) xs) \<Longrightarrow> length c = 10"
  by simp

text \<open>
  \<^bold>\<open>C8.\<close> The test that is meant to keep phone numbers out of the bank accounts compares
  the digit run as found with the phone numbers after their prefix has been stripped.
  Those have 10 characters and a bank account at least 11, so the test never excludes
  anything: the bank accounts are the matches of the account pattern of length at least
  11. For the text \<^verbatim>\<open>09876543210\<close> the run is a phone number (with its prefix \<^verbatim>\<open>0\<close>) and a
  bank-account candidate at once. The 12-digit run \<^verbatim>\<open>123456789012\<close>, which holds no phone
  number, is a bank-account candidate.
\<close>

theorem bank_account_exclusion:
  "bank_accounts (extract_from_message m) =
     remdups (filter (\<lambda>acc. 11 \<le> length acc) (findall bank_account_pattern m)) \<and>
   phone_numbers (extract_from_message ''09876543210'') = [''9876543210''] \<and>
   bank_accounts (extract_from_message ''09876543210'') = [''09876543210''] \<and>
   phone_numbers (extract_from_message ''123456789012'') = [] \<and>
   bank_accounts (extract_from_message ''123456789012'') = [''123456789012'']"
proof (intro conjI)
  let ?cleaned = "filter (\<lambda>clean. length clean = 10)
      (map (sub_anchored phone_prefix) (findall phone_pattern m))"
  have "(acc \<notin> set ?cleaned \<and> 11 \<le> length acc) = (11 \<le> length acc)" for acc
    using cleaned_length [of acc] by fastforce
  then show "bank_accounts (extract_from_message m) =
     remdups (filter (\<lambda>acc. 11 \<le> length acc) (findall bank_account_pattern m))"
    by (simp only: bank_accounts_extract)
  show "phone_numbers (extract_from_message ''09876543210'') = [''9876543210'']"
    by code_simp
  show "bank_accounts (extract_from_message ''09876543210'') = [''09876543210'']"
    by code_simp
  show "phone_numbers (extract_from_message ''123456789012'') = []"
    by code_simp
  show "bank_accounts (extract_from_message ''123456789012'') = [''123456789012'']"
    by code_simp
qed

end
